theory Spec2Isabelle
  imports Complex_Main
begin

section \<open>JavaScript values\<close>

text \<open>
  The program is Google Apps Script (JavaScript).  Sheet cells and the fields of a parsed
  AI response are untyped JavaScript values, and several branches of the code depend on
  the dynamic type (a falsy check, \<^verbatim>\<open>typeof\<close>, a method that exists only on strings), so
  the values are modelled with their tag.

  Numbers: a JavaScript number is an IEEE double.  The finite ones are modelled by the
  rational they denote; comparison, \<^verbatim>\<open>Math.min\<close>, \<^verbatim>\<open>Math.max\<close>, negation and
  \<^verbatim>\<open>Math.abs\<close> are exact on doubles, so nothing proved below depends on rounding.
  Everything that does round or format (\<^verbatim>\<open>parseFloat\<close> of a string,
  \<^verbatim>\<open>Number.prototype.toString\<close>, \<^verbatim>\<open>toFixed\<close>, \<^verbatim>\<open>new Date\<close>) is a field of the
  environment record below.
\<close>

datatype jsnum = NaN | Fin rat | PosInf | NegInf

datatype jsval =
    JUndefined
  | JNull
  | JBool bool
  | JNum jsnum
  | JStr string
  | JArr "jsval list"
  | JObj "(string \<times> jsval) list"

text \<open>A cell of a sheet holds a string, a number or a boolean (an empty cell is the empty
  string); on these, \<^verbatim>\<open>===\<close> is equality.  Date cells are not modelled: the
  functions below compare and rewrite only text, number and boolean columns.\<close>

datatype cell = CStr string | CNum rat | CBool bool

text \<open>The error codes of \<^verbatim>\<open>SYSTEM_CONFIG.ERROR_CODES\<close> that the modelled code raises, the
  \<^verbatim>\<open>TypeError\<close> of the language, and the failure of a call into the Sheets or Drive
  service.\<close>

datatype sheet_id = BufferSheet | FinalSheet | InflowSheet | OutflowSheet

datatype folder_id = BufferFolder | InflowFolder | OutflowFolder

datatype api_call =
    AcquireLock
  | GetClient
  | GetFolderStructure
  | GetSheet sheet_id
  | GetLastRow sheet_id
  | GetValues sheet_id
  | GetHeaders sheet_id
  | GetValue sheet_id nat nat
  | SetValue sheet_id nat nat
  | AppendRow sheet_id "cell list"
  | DeleteRow sheet_id nat
  | DeleteRows sheet_id
  | GetFileById string
  | GetParents
  | ListFolder folder_id
  | GetFolderName folder_id
  | AddFile folder_id string
  | RemoveFile folder_id string

datatype error =
    INVALID_INPUT
  | FILE_NOT_FOUND
  | SYSTEM_ERROR
  | TypeError
  | ServiceError api_call

datatype date_result = InvalidDate | ValidDate string

text \<open>
  The environment: what the run-time and the external services decide.
  \<^item> \<open>numToString\<close>, \<open>parseFloatStr\<close>, \<open>toFixed2\<close>: the number formatting and parsing
    of the language (\<^verbatim>\<open>String(n)\<close>, \<^verbatim>\<open>parseFloat(s)\<close>, \<^verbatim>\<open>n.toFixed(2)\<close>);
  \<^item> \<open>newDate v\<close>: \<^verbatim>\<open>new Date(v)\<close> for a primitive value \<open>v\<close> (a string is parsed, a
    number or a boolean is a time value), followed by \<^verbatim>\<open>toISOString().split('T')[0]\<close>:
    the date as \<^verbatim>\<open>YYYY-MM-DD\<close>, or an invalid date;
  \<^item> \<open>today\<close>: \<^verbatim>\<open>formatDateForFilename(new Date())\<close>;
  \<^item> \<open>now\<close>: \<^verbatim>\<open>getCurrentTimestamp()\<close>; \<open>uniqueId\<close>: \<^verbatim>\<open>generateUniqueId()\<close>
    (one value per run of a modelled function: no property below compares two of them);
  \<^item> \<open>faulty c\<close>: the service call \<open>c\<close> throws (a call is named with the sheet or
    folder and the row, column, row data or file it is made on; the same call fails every
    time it is made during one run).
\<close>

record env =
  numToString :: "jsnum \<Rightarrow> string"
  parseFloatStr :: "string \<Rightarrow> jsnum"
  toFixed2 :: "jsnum \<Rightarrow> string"
  newDate :: "jsval \<Rightarrow> date_result"
  today :: string
  now :: string
  uniqueId :: string
  faulty :: "api_call \<Rightarrow> bool"

subsection \<open>Truthiness, conversion to string, string methods\<close>

fun truthy :: "jsval \<Rightarrow> bool" where
  "truthy JUndefined = False"
| "truthy JNull = False"
| "truthy (JBool b) = b"
| "truthy (JNum n) = (n \<noteq> NaN \<and> n \<noteq> Fin 0)"
| "truthy (JStr s) = (s \<noteq> [])"
| "truthy (JArr xs) = True"
| "truthy (JObj kv) = True"

fun joinWith :: "string \<Rightarrow> string list \<Rightarrow> string" where
  "joinWith sep [] = []"
| "joinWith sep [s] = s"
| "joinWith sep (s # t # ss) = s @ sep @ joinWith sep (t # ss)"

fun sequenceOpt :: "'a option list \<Rightarrow> 'a list option" where
  "sequenceOpt [] = Some []"
| "sequenceOpt (None # xs) = None"
| "sequenceOpt (Some x # xs) = (case sequenceOpt xs of None \<Rightarrow> None | Some ys \<Rightarrow> Some (x # ys))"

text \<open>\<^verbatim>\<open>v.toString()\<close>; \<open>None\<close> is the \<^verbatim>\<open>TypeError\<close> of calling it on \<^verbatim>\<open>undefined\<close> or
  \<^verbatim>\<open>null\<close>, or on a parsed JSON object whose own property \<^verbatim>\<open>toString\<close> hides the
  inherited method (a JSON value is never callable).  An array joins its elements with a
  comma, \<^verbatim>\<open>null\<close> and \<^verbatim>\<open>undefined\<close> elements as the empty string.\<close>

fun js_toString :: "(jsnum \<Rightarrow> string) \<Rightarrow> jsval \<Rightarrow> string option" where
  "js_toString ns JUndefined = None"
| "js_toString ns JNull = None"
| "js_toString ns (JBool b) = Some (if b then ''true'' else ''false'')"
| "js_toString ns (JNum n) = Some (ns n)"
| "js_toString ns (JStr s) = Some s"
| "js_toString ns (JArr xs) =
     map_option (joinWith '','')
       (sequenceOpt (map (\<lambda>v. if v = JUndefined \<or> v = JNull then Some [] else js_toString ns v) xs))"
| "js_toString ns (JObj kv) =
     (if ''toString'' \<in> fst ` set kv then None else Some ''[object Object]'')"

text \<open>\<^verbatim>\<open>`${v}`\<close>, \<^verbatim>\<open>parseFloat(v)\<close> and \<^verbatim>\<open>new Date(v)\<close> convert \<open>v\<close> with the
  conversion of the language instead of calling the method: \<^verbatim>\<open>undefined\<close> and
  \<^verbatim>\<open>null\<close> give their names, every other value what \<^verbatim>\<open>v.toString()\<close> gives, and
  the conversion of an object whose \<^verbatim>\<open>toString\<close> is hidden raises as the call does
  (the inherited \<^verbatim>\<open>valueOf\<close> returns the object itself, which is no primitive).\<close>

definition js_String :: "(jsnum \<Rightarrow> string) \<Rightarrow> jsval \<Rightarrow> string option" where
  "js_String ns v =
     (case v of
        JUndefined \<Rightarrow> Some ''undefined''
      | JNull \<Rightarrow> Some ''null''
      | _ \<Rightarrow> js_toString ns v)"

text \<open>A string of the language is a sequence of UTF-16 code units.  A character of the
  model is a code unit below 256 (Basic Latin and the Latin-1 Supplement), so the strings of
  the model are the strings of such units.  On them:
  \<^item> the white space that \<^verbatim>\<open>trim\<close> strips and \<^verbatim>\<open>\s\<close> matches is tab, line feed,
    vertical tab, form feed, carriage return, space and the no-break space U+00A0;
  \<^item> \<^verbatim>\<open>toLowerCase\<close> maps A to Z, and U+00C0 to U+00DE without the multiplication sign
    U+00D7, to the unit 32 above;
  \<^item> \<^verbatim>\<open>\d\<close> matches the ten ASCII digits only.\<close>

definition isUpper :: "char \<Rightarrow> bool" where
  "isUpper c = (65 \<le> (of_char c :: nat) \<and> (of_char c :: nat) \<le> 90)"

definition isLower :: "char \<Rightarrow> bool" where
  "isLower c = (97 \<le> (of_char c :: nat) \<and> (of_char c :: nat) \<le> 122)"

definition isDigit :: "char \<Rightarrow> bool" where
  "isDigit c = (48 \<le> (of_char c :: nat) \<and> (of_char c :: nat) \<le> 57)"

definition isSpace :: "char \<Rightarrow> bool" where
  "isSpace c =
     ((of_char c :: nat) = 32 \<or> (9 \<le> (of_char c :: nat) \<and> (of_char c :: nat) \<le> 13)
      \<or> (of_char c :: nat) = 160)"

definition lowerChar :: "char \<Rightarrow> char" where
  "lowerChar c =
     (case map_of (zip ''ABCDEFGHIJKLMNOPQRSTUVWXYZ'' ''abcdefghijklmnopqrstuvwxyz'') c of
        Some l \<Rightarrow> l
      | None \<Rightarrow>
          if 192 \<le> (of_char c :: nat) \<and> (of_char c :: nat) \<le> 222 \<and> (of_char c :: nat) \<noteq> 215
          then char_of ((of_char c :: nat) + 32)
          else c)"

definition toLowerCase :: "string \<Rightarrow> string" where
  "toLowerCase s = map lowerChar s"

definition trim :: "string \<Rightarrow> string" where
  "trim s = rev (dropWhile isSpace (rev (dropWhile isSpace s)))"

definition startsWith :: "string \<Rightarrow> string \<Rightarrow> bool" where
  "startsWith s p = (take (length p) s = p)"



subsection \<open>Numbers\<close>

fun js_min :: "jsnum \<Rightarrow> jsnum \<Rightarrow> jsnum" where
  "js_min NaN y = NaN"
| "js_min x NaN = NaN"
| "js_min NegInf y = NegInf"
| "js_min x NegInf = NegInf"
| "js_min PosInf y = y"
| "js_min x PosInf = x"
| "js_min (Fin a) (Fin b) = Fin (min a b)"

fun js_max :: "jsnum \<Rightarrow> jsnum \<Rightarrow> jsnum" where
  "js_max NaN y = NaN"
| "js_max x NaN = NaN"
| "js_max PosInf y = PosInf"
| "js_max x PosInf = PosInf"
| "js_max NegInf y = y"
| "js_max x NegInf = x"
| "js_max (Fin a) (Fin b) = Fin (max a b)"



text \<open>\<^verbatim>\<open>parseFloat(v)\<close> converts its argument to a string and parses a prefix of it.  For a
  number argument the conversion and the parse give the number back; \<open>None\<close> is the
  exception of the conversion.\<close>

definition parseFloat :: "env \<Rightarrow> jsval \<Rightarrow> jsnum option" where
  "parseFloat e v =
     (case v of
        JNum n \<Rightarrow> Some n
      | JUndefined \<Rightarrow> Some NaN
      | JNull \<Rightarrow> Some NaN
      | _ \<Rightarrow> map_option (parseFloatStr e) (js_toString (numToString e) v))"


section \<open>Sanitising the AI response (AllProcessor.js)\<close>

definition validTypes :: "string list" where
  "validTypes = [''invoice'', ''receipt'', ''bill'', ''statement'', ''contract'', ''other'']"

text \<open>
  Every field sanitiser is a \<^verbatim>\<open>try\<close> with a \<^verbatim>\<open>catch\<close> of the form
  \<^verbatim>\<open>debugLog(`Error cleaning ...: ${input}`, error); return dflt\<close>.  The template
  literal is evaluated before \<^verbatim>\<open>debugLog\<close> is entered, so the \<^verbatim>\<open>catch\<close> returns the
  default only if the input converts to a string, and raises the exception of the
  conversion otherwise.  For each sanitiser, \<open>f_try\<close> is the body of the \<^verbatim>\<open>try\<close> and
  \<open>f\<close> the function.
\<close>

definition loggedDefault :: "env \<Rightarrow> jsval \<Rightarrow> 'a \<Rightarrow> error + 'a" where
  "loggedDefault e input dflt =
     (case js_String (numToString e) input of
        None \<Rightarrow> Inl TypeError
      | Some message \<Rightarrow> Inr dflt)"

text \<open>\<^verbatim>\<open>cleanAndValidateDocumentType\<close>: the falsy check, then
  \<^verbatim>\<open>typeInput.toString().toLowerCase().trim()\<close> and the membership test.\<close>

definition cleanAndValidateDocumentType_try :: "env \<Rightarrow> jsval \<Rightarrow> error + string" where
  "cleanAndValidateDocumentType_try e typeInput =
     (if \<not> truthy typeInput then Inr ''unknown''
      else case js_toString (numToString e) typeInput of
             None \<Rightarrow> Inl TypeError
           | Some s \<Rightarrow>
               (let cleaned = trim (toLowerCase s)
                in Inr (if cleaned \<in> set validTypes then cleaned else ''unknown'')))"

definition cleanAndValidateDocumentType :: "env \<Rightarrow> jsval \<Rightarrow> error + string" where
  "cleanAndValidateDocumentType e typeInput =
     (case cleanAndValidateDocumentType_try e typeInput of
        Inr r \<Rightarrow> Inr r
      | Inl err \<Rightarrow> loggedDefault e typeInput ''unknown'')"





text \<open>\<^verbatim>\<open>cleanAndValidateConfidence\<close>: the falsy check, \<^verbatim>\<open>parseFloat\<close>, the
  \<^verbatim>\<open>isNaN\<close> check and \<^verbatim>\<open>Math.max(0, Math.min(1, parsed))\<close>.\<close>

definition cleanAndValidateConfidence_try :: "env \<Rightarrow> jsval \<Rightarrow> error + jsnum" where
  "cleanAndValidateConfidence_try e confidenceInput =
     (if \<not> truthy confidenceInput then Inr (Fin (8 / 10))
      else case parseFloat e confidenceInput of
             None \<Rightarrow> Inl TypeError
           | Some parsed \<Rightarrow>
               if parsed = NaN then Inr (Fin (8 / 10))
               else Inr (js_max (Fin 0) (js_min (Fin 1) parsed)))"

definition cleanAndValidateConfidence :: "env \<Rightarrow> jsval \<Rightarrow> error + jsnum" where
  "cleanAndValidateConfidence e confidenceInput =
     (case cleanAndValidateConfidence_try e confidenceInput of
        Inr r \<Rightarrow> Inr r
      | Inl err \<Rightarrow> loggedDefault e confidenceInput (Fin (8 / 10)))"


text \<open>\<^verbatim>\<open>new Date(v)\<close>: an array or an object is converted to a string first, which may
  raise; the environment decides about the primitive value.\<close>

definition js_newDate :: "env \<Rightarrow> jsval \<Rightarrow> error + date_result" where
  "js_newDate e v =
     (case v of
        JArr xs \<Rightarrow>
          (case js_String (numToString e) v of
             None \<Rightarrow> Inl TypeError
           | Some s \<Rightarrow> Inr (newDate e (JStr s)))
      | JObj kv \<Rightarrow>
          (case js_String (numToString e) v of
             None \<Rightarrow> Inl TypeError
           | Some s \<Rightarrow> Inr (newDate e (JStr s)))
      | _ \<Rightarrow> Inr (newDate e v))"


















section \<open>Sheets and Drive\<close>

text \<open>
  A sheet is the grid that \<^verbatim>\<open>getDataRange().getValues()\<close> returns: a list of rows, the
  first one the header row; \<^verbatim>\<open>getLastRow()\<close> is the number of rows.  Rows and columns
  are addressed from 1, as in the Sheets service.

  Drive: the files that exist (id and name) and, for each of the client's three folders,
  the ids of the files in it.
\<close>

type_synonym grid = "cell list list"

record world =
  sheets :: "sheet_id \<Rightarrow> grid"
  driveFiles :: "(string \<times> string) list"
  folders :: "folder_id \<Rightarrow> string list"

type_synonym 'a outcome = "(error + 'a) \<times> world"

text \<open>Sequencing of two steps: an exception of the first step skips the second, and the
  mutations made before the exception stay.\<close>

definition andThen :: "'a outcome \<Rightarrow> ('a \<Rightarrow> world \<Rightarrow> 'b outcome) \<Rightarrow> 'b outcome" where
  "andThen r f = (case r of (Inl err, w) \<Rightarrow> (Inl err, w) | (Inr x, w) \<Rightarrow> f x w)"

fun cellTruthy :: "cell \<Rightarrow> bool" where
  "cellTruthy (CStr s) = (s \<noteq> [])"
| "cellTruthy (CNum q) = (q \<noteq> 0)"
| "cellTruthy (CBool b) = b"

text \<open>\<^verbatim>\<open>a || b\<close> on cell values.\<close>

definition cellOr :: "cell \<Rightarrow> cell \<Rightarrow> cell" where
  "cellOr a b = (if cellTruthy a then a else b)"

text \<open>The string a template literal makes of a cell value.\<close>

fun cellText :: "env \<Rightarrow> cell \<Rightarrow> string" where
  "cellText e (CStr s) = s"
| "cellText e (CNum q) = numToString e (Fin q)"
| "cellText e (CBool b) = (if b then ''true'' else ''false'')"

subsection \<open>The helpers of Config.gs\<close>

fun indexOf :: "'a list \<Rightarrow> 'a \<Rightarrow> int" where
  "indexOf [] x = - 1"
| "indexOf (y # ys) x =
     (if y = x then 0 else (let r = indexOf ys x in if r < 0 then - 1 else r + 1))"

definition getColumnIndex :: "cell list \<Rightarrow> string \<Rightarrow> int" where
  "getColumnIndex headers columnName = indexOf headers (CStr columnName)"

definition safeGetCellValue :: "cell list \<Rightarrow> int \<Rightarrow> cell \<Rightarrow> cell" where
  "safeGetCellValue row index defaultValue =
     (if index < 0 \<or> index \<ge> int (length row) then defaultValue else row ! nat index)"

text \<open>\<^verbatim>\<open>extractFileIdFromUrl\<close>: each pattern is a literal followed by
  \<^verbatim>\<open>([a-zA-Z0-9-_]+)\<close>; the match is the leftmost place where the literal is followed
  by at least one such character, and the group is the longest run of them.\<close>

definition isIdChar :: "char \<Rightarrow> bool" where
  "isIdChar c = (isLower c \<or> isUpper c \<or> isDigit c \<or> c = CHR ''-'' \<or> c = CHR ''_'')"

fun matchAfter :: "string \<Rightarrow> string \<Rightarrow> string option" where
  "matchAfter lit [] = None"
| "matchAfter lit (c # cs) =
     (if startsWith (c # cs) lit \<and> takeWhile isIdChar (drop (length lit) (c # cs)) \<noteq> []
      then Some (takeWhile isIdChar (drop (length lit) (c # cs)))
      else matchAfter lit cs)"

fun firstMatch :: "string list \<Rightarrow> string \<Rightarrow> string option" where
  "firstMatch [] url = None"
| "firstMatch (lit # lits) url =
     (case matchAfter lit url of Some m \<Rightarrow> Some m | None \<Rightarrow> firstMatch lits url)"

definition extractFileIdFromUrl :: "cell \<Rightarrow> string option" where
  "extractFileIdFromUrl url =
     (case url of
        CStr s \<Rightarrow>
          firstMatch [''/file/d/'', ''id='', ''folders/'', ''document/d/'', ''spreadsheets/d/''] s
      | _ \<Rightarrow> None)"

subsection \<open>The calls into the Sheets service\<close>

definition getSheet :: "env \<Rightarrow> sheet_id \<Rightarrow> world \<Rightarrow> unit outcome" where
  "getSheet e sid w =
     (if faulty e (GetSheet sid) then (Inl (ServiceError (GetSheet sid)), w) else (Inr (), w))"

definition getLastRow :: "env \<Rightarrow> sheet_id \<Rightarrow> world \<Rightarrow> nat outcome" where
  "getLastRow e sid w =
     (if faulty e (GetLastRow sid) then (Inl (ServiceError (GetLastRow sid)), w)
      else (Inr (length (sheets w sid)), w))"

definition getValues :: "env \<Rightarrow> sheet_id \<Rightarrow> world \<Rightarrow> grid outcome" where
  "getValues e sid w =
     (if faulty e (GetValues sid) then (Inl (ServiceError (GetValues sid)), w)
      else (Inr (sheets w sid), w))"

text \<open>\<^verbatim>\<open>sheet.getRange(1, 1, 1, sheet.getLastColumn()).getValues()[0]\<close>; a sheet without
  any cell has no last column and the range is refused.\<close>

definition getHeaders :: "env \<Rightarrow> sheet_id \<Rightarrow> world \<Rightarrow> (cell list) outcome" where
  "getHeaders e sid w =
     (if faulty e (GetHeaders sid) then (Inl (ServiceError (GetHeaders sid)), w)
      else case sheets w sid of
             [] \<Rightarrow> (Inl (ServiceError (GetHeaders sid)), w)
           | headers # rows \<Rightarrow> (Inr headers, w))"

definition getCell :: "grid \<Rightarrow> nat \<Rightarrow> nat \<Rightarrow> cell" where
  "getCell g r c =
     (if 1 \<le> r \<and> r \<le> length g \<and> 1 \<le> c \<and> c \<le> length (g ! (r - 1))
      then g ! (r - 1) ! (c - 1) else CStr [])"

definition padTo :: "nat \<Rightarrow> 'a \<Rightarrow> 'a list \<Rightarrow> 'a list" where
  "padTo n x xs = xs @ replicate (n - length xs) x"

text \<open>Writing a cell beyond the used range extends the range with empty cells.\<close>

definition setCell :: "grid \<Rightarrow> nat \<Rightarrow> nat \<Rightarrow> cell \<Rightarrow> grid" where
  "setCell g r c v =
     (let g1 = padTo r [] g
      in g1[r - 1 := (padTo c (CStr []) (g1 ! (r - 1)))[c - 1 := v]])"

definition getValue :: "env \<Rightarrow> sheet_id \<Rightarrow> nat \<Rightarrow> nat \<Rightarrow> world \<Rightarrow> cell outcome" where
  "getValue e sid r c w =
     (if faulty e (GetValue sid r c) then (Inl (ServiceError (GetValue sid r c)), w)
      else (Inr (getCell (sheets w sid) r c), w))"

definition setValue :: "env \<Rightarrow> sheet_id \<Rightarrow> nat \<Rightarrow> nat \<Rightarrow> cell \<Rightarrow> world \<Rightarrow> unit outcome" where
  "setValue e sid r c v w =
     (if faulty e (SetValue sid r c) then (Inl (ServiceError (SetValue sid r c)), w)
      else (Inr (), w\<lparr>sheets := (sheets w)(sid := setCell (sheets w sid) r c v)\<rparr>))"

definition appendRow :: "env \<Rightarrow> sheet_id \<Rightarrow> cell list \<Rightarrow> world \<Rightarrow> unit outcome" where
  "appendRow e sid rowData w =
     (if faulty e (AppendRow sid rowData) then (Inl (ServiceError (AppendRow sid rowData)), w)
      else (Inr (), w\<lparr>sheets := (sheets w)(sid := sheets w sid @ [rowData])\<rparr>))"

definition deleteRowAt :: "nat \<Rightarrow> grid \<Rightarrow> grid" where
  "deleteRowAt r g = take (r - 1) g @ drop r g"

definition deleteRow :: "env \<Rightarrow> sheet_id \<Rightarrow> nat \<Rightarrow> world \<Rightarrow> unit outcome" where
  "deleteRow e sid r w =
     (if faulty e (DeleteRow sid r) then (Inl (ServiceError (DeleteRow sid r)), w)
      else (Inr (), w\<lparr>sheets := (sheets w)(sid := deleteRowAt r (sheets w sid))\<rparr>))"

text \<open>\<^verbatim>\<open>sheet.deleteRows(2, lastRow - 1)\<close>: everything below the header row.\<close>

definition deleteRows :: "env \<Rightarrow> sheet_id \<Rightarrow> world \<Rightarrow> unit outcome" where
  "deleteRows e sid w =
     (if faulty e (DeleteRows sid) then (Inl (ServiceError (DeleteRows sid)), w)
      else (Inr (), w\<lparr>sheets := (sheets w)(sid := take 1 (sheets w sid))\<rparr>))"

subsection \<open>The calls into the Drive service\<close>

text \<open>\<^verbatim>\<open>DriveApp.getFileById\<close> throws for an id that names no file; the result stands for
  the file object and is its name.\<close>

definition getFileById :: "env \<Rightarrow> string \<Rightarrow> world \<Rightarrow> string outcome" where
  "getFileById e fid w =
     (if faulty e (GetFileById fid) then (Inl (ServiceError (GetFileById fid)), w)
      else case map_of (driveFiles w) fid of
             None \<Rightarrow> (Inl (ServiceError (GetFileById fid)), w)
           | Some name \<Rightarrow> (Inr name, w))"

definition addFile :: "env \<Rightarrow> folder_id \<Rightarrow> string \<Rightarrow> world \<Rightarrow> unit outcome" where
  "addFile e f fid w =
     (if faulty e (AddFile f fid) then (Inl (ServiceError (AddFile f fid)), w)
      else (Inr (), w\<lparr>folders := (folders w)
              (f := (if fid \<in> set (folders w f) then folders w f else folders w f @ [fid]))\<rparr>))"

definition removeFile :: "env \<Rightarrow> folder_id \<Rightarrow> string \<Rightarrow> world \<Rightarrow> unit outcome" where
  "removeFile e f fid w =
     (if faulty e (RemoveFile f fid) then (Inl (ServiceError (RemoveFile f fid)), w)
      else (Inr (), w\<lparr>folders := (folders w)(f := removeAll fid (folders w f))\<rparr>))"


section \<open>Detection of deletions and reactivations (SheetManager.gs)\<close>

record deletionItem =
  d_rowIndex :: nat
  d_originalFilename :: cell
  d_fileUrl :: cell
  d_fileId :: cell
  d_reason :: cell

record reactivationItem =
  r_rowIndex :: nat
  r_originalFilename :: cell
  r_changedFilename :: cell
  r_fileUrl :: cell
  r_fileId :: cell
  r_invoiceNumber :: cell
  r_emailSubject :: cell
  r_dateAdded :: cell
  r_previousReason :: cell

text \<open>\<^verbatim>\<open>reason.startsWith(p)\<close>: only a string has the method; on a number or a boolean
  the call is a \<^verbatim>\<open>TypeError\<close>.\<close>

definition cellStartsWith :: "cell \<Rightarrow> string \<Rightarrow> error + bool" where
  "cellStartsWith v p = (case v of CStr s \<Rightarrow> Inr (startsWith s p) | _ \<Rightarrow> Inl TypeError)"

text \<open>The loop of \<^verbatim>\<open>getFilesMarkedForDeletion\<close> from the row with loop index \<open>i\<close> on;
  the row's sheet position is \<open>i + 1\<close>.  \<^verbatim>\<open>&&\<close> evaluates \<^verbatim>\<open>startsWith\<close> only for a
  row whose status is \<^verbatim>\<open>Deleted\<close>.\<close>

fun deletionLoop :: "cell list \<Rightarrow> nat \<Rightarrow> grid \<Rightarrow> error + deletionItem list" where
  "deletionLoop headers i [] = Inr []"
| "deletionLoop headers i (row # rows) =
     (let status = safeGetCellValue row (getColumnIndex headers ''Status'') (CStr []);
          reason = safeGetCellValue row (getColumnIndex headers ''Reason'') (CStr [])
      in if status = CStr ''Deleted'' then
           (case cellStartsWith reason ''Deleted:'' of
              Inl err \<Rightarrow> Inl err
            | Inr b \<Rightarrow>
                (case deletionLoop headers (i + 1) rows of
                   Inl err \<Rightarrow> Inl err
                 | Inr items \<Rightarrow>
                     Inr (if b then items
                          else \<lparr> d_rowIndex = i + 1,
                                 d_originalFilename = safeGetCellValue row
                                   (getColumnIndex headers ''Original File Name'') (CStr []),
                                 d_fileUrl = safeGetCellValue row
                                   (getColumnIndex headers ''File URL'') (CStr []),
                                 d_fileId = safeGetCellValue row
                                   (getColumnIndex headers ''File ID'') (CStr []),
                                 d_reason = reason \<rparr> # items)))
         else deletionLoop headers (i + 1) rows)"

text \<open>The body of the \<^verbatim>\<open>try\<close> block of \<^verbatim>\<open>getFilesMarkedForDeletion\<close>.\<close>

definition getFilesMarkedForDeletion_try :: "env \<Rightarrow> world \<Rightarrow> error + deletionItem list" where
  "getFilesMarkedForDeletion_try e w =
     (case fst (getLastRow e BufferSheet w) of
        Inl err \<Rightarrow> Inl err
      | Inr n \<Rightarrow>
          if n \<le> 1 then Inr []
          else case fst (getValues e BufferSheet w) of
                 Inl err \<Rightarrow> Inl err
               | Inr [] \<Rightarrow> Inr []
               | Inr (headers # rows) \<Rightarrow> deletionLoop headers 1 rows)"

text \<open>\<^verbatim>\<open>getFilesMarkedForDeletion\<close>: the \<^verbatim>\<open>catch\<close> logs the error and returns the empty
  array.\<close>

definition getFilesMarkedForDeletion :: "env \<Rightarrow> world \<Rightarrow> deletionItem list" where
  "getFilesMarkedForDeletion e w =
     (case getFilesMarkedForDeletion_try e w of Inl err \<Rightarrow> [] | Inr items \<Rightarrow> items)"

fun reactivationLoop :: "cell list \<Rightarrow> nat \<Rightarrow> grid \<Rightarrow> error + reactivationItem list" where
  "reactivationLoop headers i [] = Inr []"
| "reactivationLoop headers i (row # rows) =
     (let status = safeGetCellValue row (getColumnIndex headers ''Status'') (CStr []);
          reason = safeGetCellValue row (getColumnIndex headers ''Reason'') (CStr [])
      in if status = CStr ''Active'' then
           (case cellStartsWith reason ''Deleted:'' of
              Inl err \<Rightarrow> Inl err
            | Inr b \<Rightarrow>
                (case reactivationLoop headers (i + 1) rows of
                   Inl err \<Rightarrow> Inl err
                 | Inr items \<Rightarrow>
                     Inr (if b then
                            \<lparr> r_rowIndex = i + 1,
                              r_originalFilename = safeGetCellValue row
                                (getColumnIndex headers ''Original File Name'') (CStr []),
                              r_changedFilename = safeGetCellValue row
                                (getColumnIndex headers ''Changed File Name'') (CStr []),
                              r_fileUrl = safeGetCellValue row
                                (getColumnIndex headers ''File URL'') (CStr []),
                              r_fileId = safeGetCellValue row
                                (getColumnIndex headers ''File ID'') (CStr []),
                              r_invoiceNumber = safeGetCellValue row
                                (getColumnIndex headers ''Invoice Number'') (CStr []),
                              r_emailSubject = safeGetCellValue row
                                (getColumnIndex headers ''Email Subject'') (CStr []),
                              r_dateAdded = safeGetCellValue row
                                (getColumnIndex headers ''Date Added'') (CStr []),
                              r_previousReason = reason \<rparr> # items
                          else items)))
         else reactivationLoop headers (i + 1) rows)"

definition getFilesMarkedForReactivation_try ::
  "env \<Rightarrow> world \<Rightarrow> error + reactivationItem list" where
  "getFilesMarkedForReactivation_try e w =
     (case fst (getLastRow e BufferSheet w) of
        Inl err \<Rightarrow> Inl err
      | Inr n \<Rightarrow>
          if n \<le> 1 then Inr []
          else case fst (getValues e BufferSheet w) of
                 Inl err \<Rightarrow> Inl err
               | Inr [] \<Rightarrow> Inr []
               | Inr (headers # rows) \<Rightarrow> reactivationLoop headers 1 rows)"

definition getFilesMarkedForReactivation :: "env \<Rightarrow> world \<Rightarrow> reactivationItem list" where
  "getFilesMarkedForReactivation e w =
     (case getFilesMarkedForReactivation_try e w of Inl err \<Rightarrow> [] | Inr items \<Rightarrow> items)"

section \<open>Processing a deletion\<close>

text \<open>\<^verbatim>\<open>folder.getName()\<close>, which the loop of \<^verbatim>\<open>removeFileFromDriveFolders\<close> calls
  for its log messages only.\<close>

definition getFolderName :: "env \<Rightarrow> folder_id \<Rightarrow> world \<Rightarrow> unit outcome" where
  "getFolderName e f w =
     (if faulty e (GetFolderName f) then (Inl (ServiceError (GetFolderName f)), w)
      else (Inr (), w))"

text \<open>One pass of the loop of \<^verbatim>\<open>removeFileFromDriveFolders\<close> over a category folder.
  \<^verbatim>\<open>getFilesByName\<close> lists the files of the folder that carry the file's name; the
  file is removed if it is among them, and the removal is logged with the name of the
  folder.  The inner \<^verbatim>\<open>catch\<close> swallows an exception of these calls with a warning,
  which names the folder as well: the pass raises only if \<^verbatim>\<open>folder.getName()\<close> does.\<close>

definition removeFromCategoryFolder_try ::
    "env \<Rightarrow> string \<Rightarrow> string \<Rightarrow> folder_id \<Rightarrow> world \<Rightarrow> unit outcome" where
  "removeFromCategoryFolder_try e fid name f w =
     (if faulty e (ListFolder f) then (Inl (ServiceError (ListFolder f)), w)
      else let filesInFolder =
                 filter (\<lambda>i. map_of (driveFiles w) i = Some name) (folders w f)
           in if fid \<in> set filesInFolder
              then andThen (removeFile e f fid w) (\<lambda>u w1. getFolderName e f w1)
              else (Inr (), w))"

definition removeFromCategoryFolder ::
    "env \<Rightarrow> string \<Rightarrow> string \<Rightarrow> folder_id \<Rightarrow> world \<Rightarrow> unit outcome" where
  "removeFromCategoryFolder e fid name f w =
     (case removeFromCategoryFolder_try e fid name f w of
        (Inr u, w1) \<Rightarrow> (Inr (), w1)
      | (Inl err, w1) \<Rightarrow> getFolderName e f w1)"

text \<open>\<^verbatim>\<open>removeFileFromDriveFolders\<close>: the file id of the URL, the lookup of the file, and
  the pass over the Inflow folder and then the Outflow folder; the outer \<^verbatim>\<open>catch\<close> logs
  and rethrows.\<close>

definition removeFileFromDriveFolders :: "env \<Rightarrow> cell \<Rightarrow> world \<Rightarrow> unit outcome" where
  "removeFileFromDriveFolders e fileUrl w =
     (case extractFileIdFromUrl fileUrl of
        None \<Rightarrow> (Inl INVALID_INPUT, w)
      | Some fid \<Rightarrow>
          andThen (getFileById e fid w) (\<lambda>name w1.
          andThen (removeFromCategoryFolder e fid name InflowFolder w1) (\<lambda>u w2.
            removeFromCategoryFolder e fid name OutflowFolder w2)))"

text \<open>The loop of \<^verbatim>\<open>removeFromSheet\<close>, from the bottom row up: \<open>data\<close> is the snapshot
  read before the loop, the rows are deleted in the live sheet.  The equation for
  \<open>Suc i\<close> is the iteration with loop index \<open>Suc i\<close>, whose row has the sheet position
  \<open>Suc i + 1\<close>; index 0, the header row, ends the loop.\<close>

fun removeLoop :: "env \<Rightarrow> sheet_id \<Rightarrow> grid \<Rightarrow> int \<Rightarrow> cell \<Rightarrow> nat \<Rightarrow> nat \<Rightarrow> world \<Rightarrow> nat outcome" where
  "removeLoop e sid data columnIndex valueToMatch 0 removedCount w = (Inr removedCount, w)"
| "removeLoop e sid data columnIndex valueToMatch (Suc i) removedCount w =
     (if safeGetCellValue (data ! Suc i) columnIndex (CStr []) = valueToMatch then
        andThen (deleteRow e sid (Suc i + 1) w) (\<lambda>u w1.
          removeLoop e sid data columnIndex valueToMatch i (removedCount + 1) w1)
      else removeLoop e sid data columnIndex valueToMatch i removedCount w)"

definition removeFromSheet :: "env \<Rightarrow> sheet_id \<Rightarrow> cell \<Rightarrow> string \<Rightarrow> world \<Rightarrow> nat outcome" where
  "removeFromSheet e sid valueToMatch columnHeader w =
     andThen (getLastRow e sid w) (\<lambda>n w1.
       if n \<le> 1 then (Inr 0, w1)
       else andThen (getValues e sid w1) (\<lambda>data w2.
         case data of
           [] \<Rightarrow> (Inr 0, w2)
         | headers # rows \<Rightarrow>
             (let columnIndex = getColumnIndex headers columnHeader
              in if columnIndex = - 1 then (Inr 0, w2)
                 else removeLoop e sid data columnIndex valueToMatch (length data - 1) 0 w2)))"

text \<open>A step guarded by \<^verbatim>\<open>if (index !== -1)\<close>: write the cell of the row in the column
  with that header index.\<close>

definition setIfColumn :: "env \<Rightarrow> sheet_id \<Rightarrow> nat \<Rightarrow> int \<Rightarrow> cell \<Rightarrow> world \<Rightarrow> unit outcome" where
  "setIfColumn e sid rowIndex index v w =
     (if index \<noteq> - 1 then setValue e sid rowIndex (nat index + 1) v w else (Inr (), w))"

definition updateBufferSheetForDeletion :: "env \<Rightarrow> nat \<Rightarrow> cell \<Rightarrow> world \<Rightarrow> unit outcome" where
  "updateBufferSheetForDeletion e rowIndex reason w =
     andThen (getHeaders e BufferSheet w) (\<lambda>headers w1.
     andThen (setIfColumn e BufferSheet rowIndex (getColumnIndex headers ''Status'')
                (CStr ''Deleted'') w1) (\<lambda>u w2.
     andThen (setIfColumn e BufferSheet rowIndex (getColumnIndex headers ''Reason'')
                (CStr (''Deleted: '' @ cellText e reason @ '' ('' @ now e @ '')'')) w2) (\<lambda>u w3.
     setIfColumn e BufferSheet rowIndex (getColumnIndex headers ''Last Modified'')
       (CStr (now e)) w3)))"

text \<open>\<^verbatim>\<open>processFileDeletion\<close>: the four steps in the order of the source; its
  \<^verbatim>\<open>catch\<close> logs and rethrows.\<close>

definition processFileDeletion :: "env \<Rightarrow> deletionItem \<Rightarrow> world \<Rightarrow> unit outcome" where
  "processFileDeletion e deletionItem w =
     andThen (removeFileFromDriveFolders e (d_fileUrl deletionItem) w) (\<lambda>u w1.
     andThen (removeFromSheet e FinalSheet (d_fileUrl deletionItem) ''File URL'' w1) (\<lambda>n w2.
     andThen (removeFromSheet e InflowSheet (d_fileUrl deletionItem) ''File URL'' w2) (\<lambda>n w3.
     andThen (removeFromSheet e OutflowSheet (d_fileUrl deletionItem) ''File URL'' w3) (\<lambda>n w4.
     updateBufferSheetForDeletion e (d_rowIndex deletionItem) (d_reason deletionItem) w4))))"


section \<open>Processing a reactivation\<close>

definition hasValidAIData :: "reactivationItem \<Rightarrow> bool" where
  "hasValidAIData reactivationItem =
     (cellTruthy (r_changedFilename reactivationItem)
      \<and> r_changedFilename reactivationItem \<noteq> r_originalFilename reactivationItem
      \<and> cellTruthy (r_invoiceNumber reactivationItem)
      \<and> (case r_invoiceNumber reactivationItem of CStr s \<Rightarrow> trim s \<noteq> [] | _ \<Rightarrow> False))"

text \<open>\<^verbatim>\<open>ensureFileInBufferFolder\<close>.  The parents of a file are the folders that hold
  it; the cleanup loop removes the file from the parents named Inflow and Outflow, and
  an exception there is not caught.\<close>

definition removeFromNamedParent :: "env \<Rightarrow> folder_id \<Rightarrow> string \<Rightarrow> world \<Rightarrow> unit outcome" where
  "removeFromNamedParent e f fid w =
     (if fid \<in> set (folders w f) then removeFile e f fid w else (Inr (), w))"

definition ensureFileInBufferFolder :: "env \<Rightarrow> reactivationItem \<Rightarrow> world \<Rightarrow> unit outcome" where
  "ensureFileInBufferFolder e reactivationItem w =
     (case extractFileIdFromUrl (r_fileUrl reactivationItem) of
        None \<Rightarrow> (Inl INVALID_INPUT, w)
      | Some fid \<Rightarrow>
          (case fst (getFileById e fid w) of
             Inl err \<Rightarrow> (Inl FILE_NOT_FOUND, w)
           | Inr name \<Rightarrow>
               if faulty e GetParents then (Inl (ServiceError GetParents), w)
               else if fid \<in> set (folders w BufferFolder) then (Inr (), w)
               else andThen (addFile e BufferFolder fid w) (\<lambda>u w1.
                    andThen (removeFromNamedParent e InflowFolder fid w1) (\<lambda>u w2.
                    removeFromNamedParent e OutflowFolder fid w2))))"

definition updateBufferSheetForReactivation :: "env \<Rightarrow> nat \<Rightarrow> world \<Rightarrow> unit outcome" where
  "updateBufferSheetForReactivation e rowIndex w =
     andThen (getHeaders e BufferSheet w) (\<lambda>headers w1.
     andThen (setIfColumn e BufferSheet rowIndex (getColumnIndex headers ''Status'')
                (CStr ''Active'') w1) (\<lambda>u w2.
     andThen (if getColumnIndex headers ''Reason'' \<noteq> - 1 then
                andThen (getValue e BufferSheet rowIndex
                           (nat (getColumnIndex headers ''Reason'') + 1) w2) (\<lambda>currentReason w2a.
                  setValue e BufferSheet rowIndex (nat (getColumnIndex headers ''Reason'') + 1)
                    (CStr (''Reactivated on '' @ now e @ ''. Previous: ''
                            @ cellText e currentReason)) w2a)
              else (Inr (), w2)) (\<lambda>u w3.
     andThen (setIfColumn e BufferSheet rowIndex (getColumnIndex headers ''Processing Attempts'')
                (CStr ''0'') w3) (\<lambda>u w4.
     setIfColumn e BufferSheet rowIndex (getColumnIndex headers ''Last Modified'')
       (CStr (now e)) w4))))"

subsection \<open>Parsing a generated file name (AllProcessor.js)\<close>

record parsedName =
  p_date :: string
  p_vendorName :: string
  p_invoiceNumber :: string
  p_amount :: string

fun lastIndexOf :: "string \<Rightarrow> char \<Rightarrow> int" where
  "lastIndexOf [] c = - 1"
| "lastIndexOf (x # xs) c =
     (let r = lastIndexOf xs c in if r \<ge> 0 then r + 1 else if x = c then 0 else - 1)"

text \<open>\<^verbatim>\<open>s.substring(0, n)\<close>: a negative end counts as 0.\<close>

definition substring0 :: "string \<Rightarrow> int \<Rightarrow> string" where
  "substring0 s n = take (nat n) s"

fun splitOn :: "char \<Rightarrow> string \<Rightarrow> string list" where
  "splitOn c [] = [[]]"
| "splitOn c (x # xs) =
     (if x = c then [] # splitOn c xs
      else case splitOn c xs of [] \<Rightarrow> [[x]] | p # ps \<Rightarrow> (x # p) # ps)"

text \<open>\<^verbatim>\<open>parseFilenameForAIData\<close>; \<open>None\<close> is \<^verbatim>\<open>null\<close>.  A file name that is no string
  has no \<^verbatim>\<open>substring\<close> method: the \<^verbatim>\<open>TypeError\<close> is caught and the result is
  \<^verbatim>\<open>null\<close>.\<close>

definition parseFilenameForAIData :: "cell \<Rightarrow> parsedName option" where
  "parseFilenameForAIData filename =
     (case filename of
        CStr s \<Rightarrow>
          (let nameWithoutExtension = substring0 s (lastIndexOf s (CHR ''.''));
               parts = splitOn (CHR ''_'') nameWithoutExtension
           in if length parts \<ge> 4 then
                Some \<lparr> p_date = parts ! 0,
                       p_vendorName = map (\<lambda>c. if c = CHR ''_'' then CHR '' '' else c) (parts ! 1),
                       p_invoiceNumber = parts ! 2,
                       p_amount = parts ! 3 \<rparr>
              else None)
      | _ \<Rightarrow> None)"

subsection \<open>Restoring a row of the Final sheet\<close>

text \<open>The row that \<^verbatim>\<open>restoreToFinalSheet\<close> builds, in the column order of
  \<^verbatim>\<open>FINAL_COLUMNS\<close>.\<close>

definition restoreRowData :: "env \<Rightarrow> reactivationItem \<Rightarrow> cell list" where
  "restoreRowData e reactivationItem =
     (let parsedData =
            (if cellTruthy (r_changedFilename reactivationItem)
                \<and> r_changedFilename reactivationItem \<noteq> r_originalFilename reactivationItem
             then parseFilenameForAIData (r_changedFilename reactivationItem) else None);
          aiDate = (case parsedData of None \<Rightarrow> CStr [] | Some pd \<Rightarrow> CStr (p_date pd));
          aiVendorName = (case parsedData of None \<Rightarrow> CStr [] | Some pd \<Rightarrow> CStr (p_vendorName pd));
          aiInvoiceNumber =
            (case parsedData of
               None \<Rightarrow> cellOr (r_invoiceNumber reactivationItem) (CStr [])
             | Some pd \<Rightarrow> CStr (p_invoiceNumber pd));
          aiAmount = (case parsedData of None \<Rightarrow> CStr [] | Some pd \<Rightarrow> CStr (p_amount pd))
      in [ cellOr (r_changedFilename reactivationItem) (r_originalFilename reactivationItem),
           CStr (uniqueId e),
           cellOr (r_fileId reactivationItem) (CStr []),
           r_fileUrl reactivationItem,
           CStr [],
           cellOr (r_emailSubject reactivationItem) (CStr []),
           CStr [],
           CStr ''inflow'',
           aiDate,
           aiVendorName,
           aiInvoiceNumber,
           aiAmount,
           CStr ''restored'',
           CNum (8 / 10),
           CStr (now e),
           CStr (now e) ])"

definition restoreToFinalSheet :: "env \<Rightarrow> reactivationItem \<Rightarrow> world \<Rightarrow> unit outcome" where
  "restoreToFinalSheet e reactivationItem w =
     andThen (getSheet e FinalSheet w) (\<lambda>u w1.
       appendRow e FinalSheet (restoreRowData e reactivationItem) w1)"

text \<open>\<^verbatim>\<open>processFileReactivation\<close>.\<close>

definition processFileReactivation :: "env \<Rightarrow> reactivationItem \<Rightarrow> world \<Rightarrow> unit outcome" where
  "processFileReactivation e reactivationItem w =
     (if faulty e GetFolderStructure then (Inl (ServiceError GetFolderStructure), w)
      else andThen (ensureFileInBufferFolder e reactivationItem w) (\<lambda>u w1.
           andThen (updateBufferSheetForReactivation e (r_rowIndex reactivationItem) w1) (\<lambda>u w2.
             if \<not> hasValidAIData reactivationItem then (Inr (), w2)
             else restoreToFinalSheet e reactivationItem w2)))"


section \<open>The reconciliation pass\<close>

record bufferChangesResult =
  deletedCount :: nat
  reactivatedCount :: nat
  errorCount :: nat

text \<open>The test of \<^verbatim>\<open>missingReasons\<close>: \<^verbatim>\<open>!item.reason || item.reason.trim() === ''\<close>;
  \<^verbatim>\<open>trim\<close> exists on strings only.\<close>

definition isMissingReason :: "cell \<Rightarrow> error + bool" where
  "isMissingReason reason =
     (if \<not> cellTruthy reason then Inr True
      else case reason of CStr s \<Rightarrow> Inr (trim s = []) | _ \<Rightarrow> Inl TypeError)"

fun anyMissingReason :: "deletionItem list \<Rightarrow> error + bool" where
  "anyMissingReason [] = Inr False"
| "anyMissingReason (item # items) =
     (case isMissingReason (d_reason item) of
        Inl err \<Rightarrow> Inl err
      | Inr b \<Rightarrow>
          (case anyMissingReason items of Inl err \<Rightarrow> Inl err | Inr bs \<Rightarrow> Inr (b \<or> bs)))"

text \<open>The two loops of \<^verbatim>\<open>processBufferChanges\<close>: an exception of one item is caught,
  logged and counted, and the loop goes on with the world as the failed item left it.\<close>

fun deletionsLoop :: "env \<Rightarrow> deletionItem list \<Rightarrow> bufferChangesResult \<Rightarrow> world
    \<Rightarrow> bufferChangesResult \<times> world" where
  "deletionsLoop e [] res w = (res, w)"
| "deletionsLoop e (item # items) res w =
     (case processFileDeletion e item w of
        (Inr u, w1) \<Rightarrow> deletionsLoop e items (res\<lparr>deletedCount := deletedCount res + 1\<rparr>) w1
      | (Inl err, w1) \<Rightarrow> deletionsLoop e items (res\<lparr>errorCount := errorCount res + 1\<rparr>) w1)"

fun reactivationsLoop :: "env \<Rightarrow> reactivationItem list \<Rightarrow> bufferChangesResult \<Rightarrow> world
    \<Rightarrow> bufferChangesResult \<times> world" where
  "reactivationsLoop e [] res w = (res, w)"
| "reactivationsLoop e (item # items) res w =
     (case processFileReactivation e item w of
        (Inr u, w1) \<Rightarrow>
          reactivationsLoop e items (res\<lparr>reactivatedCount := reactivatedCount res + 1\<rparr>) w1
      | (Inl err, w1) \<Rightarrow>
          reactivationsLoop e items (res\<lparr>errorCount := errorCount res + 1\<rparr>) w1)"

text \<open>\<^verbatim>\<open>processBufferChanges\<close>.  The lock that is busy is \<^verbatim>\<open>SYSTEM_ERROR\<close>; a client
  that is not found or whose configuration is invalid is \<^verbatim>\<open>INVALID_INPUT\<close>; both are
  decided by the environment.  The lock is released in \<^verbatim>\<open>finally\<close>, which changes
  nothing of the world.\<close>

definition processBufferChanges :: "env \<Rightarrow> string \<Rightarrow> world \<Rightarrow> bufferChangesResult outcome" where
  "processBufferChanges e clientName w =
     (if clientName = [] then (Inl INVALID_INPUT, w)
      else if faulty e AcquireLock then (Inl SYSTEM_ERROR, w)
      else if faulty e GetClient then (Inl INVALID_INPUT, w)
      else andThen (getSheet e BufferSheet w) (\<lambda>u w0.
        let deletionData = getFilesMarkedForDeletion e w0;
            reactivationData = getFilesMarkedForReactivation e w0;
            res0 = \<lparr> deletedCount = 0, reactivatedCount = 0, errorCount = 0 \<rparr>
        in case anyMissingReason deletionData of
             Inl err \<Rightarrow> (Inl err, w0)
           | Inr True \<Rightarrow> (Inl INVALID_INPUT, w0)
           | Inr False \<Rightarrow>
               andThen
                 (if deletionData \<noteq> [] then
                    (if faulty e GetFolderStructure then (Inl (ServiceError GetFolderStructure), w0)
                     else andThen (getSheet e FinalSheet w0) (\<lambda>u w1.
                          andThen (getSheet e InflowSheet w1) (\<lambda>u w2.
                          andThen (getSheet e OutflowSheet w2) (\<lambda>u w3.
                            (case deletionsLoop e deletionData res0 w3 of
                               (res, w4) \<Rightarrow> (Inr res, w4))))))
                  else (Inr res0, w0))
                 (\<lambda>res1 w5.
                    case reactivationsLoop e reactivationData res1 w5 of
                      (res2, w6) \<Rightarrow> (Inr res2, w6))))"

section \<open>Moving the Final sheet to the Inflow and Outflow sheets\<close>

record fileData =
  f_fileName :: cell
  f_uniqueFileId :: cell
  f_driveFileId :: cell
  f_fileUrl :: cell
  f_messageId :: cell
  f_emailSubject :: cell
  f_emailSender :: cell
  f_inflowOutflowStatus :: cell
  f_date :: cell
  f_vendorName :: cell
  f_invoiceNumber :: cell
  f_amount :: cell
  f_documentType :: cell
  f_aiConfidence :: cell
  f_processingDate :: cell

definition finalRowData :: "cell list \<Rightarrow> cell list \<Rightarrow> fileData" where
  "finalRowData headers row =
     \<lparr> f_fileName = safeGetCellValue row (getColumnIndex headers ''File Name'') (CStr []),
       f_uniqueFileId = safeGetCellValue row (getColumnIndex headers ''Unique File ID'') (CStr []),
       f_driveFileId = safeGetCellValue row (getColumnIndex headers ''Drive File ID'') (CStr []),
       f_fileUrl = safeGetCellValue row (getColumnIndex headers ''File URL'') (CStr []),
       f_messageId = safeGetCellValue row (getColumnIndex headers ''Message ID'') (CStr []),
       f_emailSubject = safeGetCellValue row (getColumnIndex headers ''Email Subject'') (CStr []),
       f_emailSender = safeGetCellValue row (getColumnIndex headers ''Email Sender'') (CStr []),
       f_inflowOutflowStatus =
         safeGetCellValue row (getColumnIndex headers ''Inflow/Outflow Status'') (CStr []),
       f_date = safeGetCellValue row (getColumnIndex headers ''Date'') (CStr []),
       f_vendorName = safeGetCellValue row (getColumnIndex headers ''Vendor Name'') (CStr []),
       f_invoiceNumber = safeGetCellValue row (getColumnIndex headers ''Invoice Number'') (CStr []),
       f_amount = safeGetCellValue row (getColumnIndex headers ''Amount'') (CStr []),
       f_documentType = safeGetCellValue row (getColumnIndex headers ''Document Type'') (CStr []),
       f_aiConfidence = safeGetCellValue row (getColumnIndex headers ''AI Confidence'') (CStr []),
       f_processingDate =
         safeGetCellValue row (getColumnIndex headers ''Processing Date'') (CStr []) \<rparr>"

text \<open>\<^verbatim>\<open>getFinalSheetData\<close>: the rows with a file name, a file URL and a status; its
  \<^verbatim>\<open>catch\<close> returns the empty array.\<close>

definition getFinalSheetData :: "env \<Rightarrow> world \<Rightarrow> fileData list" where
  "getFinalSheetData e w =
     (case fst (getLastRow e FinalSheet w) of
        Inl err \<Rightarrow> []
      | Inr n \<Rightarrow>
          if n \<le> 1 then []
          else case fst (getValues e FinalSheet w) of
                 Inl err \<Rightarrow> []
               | Inr [] \<Rightarrow> []
               | Inr (headers # rows) \<Rightarrow>
                   filter (\<lambda>fd. cellTruthy (f_fileName fd) \<and> cellTruthy (f_fileUrl fd)
                                \<and> cellTruthy (f_inflowOutflowStatus fd))
                     (map (finalRowData headers) rows))"

text \<open>The row of \<^verbatim>\<open>addToInflowSheet\<close> and \<^verbatim>\<open>addToOutflowSheet\<close>, in the order of
  \<^verbatim>\<open>FLOW_COLUMNS\<close>.\<close>

definition flowRowData :: "env \<Rightarrow> fileData \<Rightarrow> cell list" where
  "flowRowData e fd =
     [ f_fileName fd, f_uniqueFileId fd, f_driveFileId fd, f_fileUrl fd, f_messageId fd,
       f_emailSubject fd, f_emailSender fd, f_date fd, f_vendorName fd, f_invoiceNumber fd,
       f_amount fd, f_documentType fd, f_aiConfidence fd, f_processingDate fd, CStr (now e) ]"

definition addToInflowSheet :: "env \<Rightarrow> fileData \<Rightarrow> world \<Rightarrow> unit outcome" where
  "addToInflowSheet e fd w = appendRow e InflowSheet (flowRowData e fd) w"

definition addToOutflowSheet :: "env \<Rightarrow> fileData \<Rightarrow> world \<Rightarrow> unit outcome" where
  "addToOutflowSheet e fd w = appendRow e OutflowSheet (flowRowData e fd) w"

definition moveFileToFolder :: "env \<Rightarrow> cell \<Rightarrow> folder_id \<Rightarrow> folder_id \<Rightarrow> world \<Rightarrow> unit outcome" where
  "moveFileToFolder e fileUrl sourceFolder targetFolder w =
     (case extractFileIdFromUrl fileUrl of
        None \<Rightarrow> (Inl INVALID_INPUT, w)
      | Some fid \<Rightarrow>
          andThen (getFileById e fid w) (\<lambda>name w1.
          andThen (addFile e targetFolder fid w1) (\<lambda>u w2.
          removeFile e sourceFolder fid w2)))"

text \<open>The body of the \<^verbatim>\<open>try\<close> inside the loop of \<^verbatim>\<open>moveFilesToInflowOutflow\<close>; the
  result is \<^verbatim>\<open>isInflow\<close>.  \<^verbatim>\<open>toLowerCase\<close> exists on strings only.\<close>

definition moveOne :: "env \<Rightarrow> fileData \<Rightarrow> world \<Rightarrow> bool outcome" where
  "moveOne e fd w =
     (case f_inflowOutflowStatus fd of
        CStr s \<Rightarrow>
          if toLowerCase s = ''inflow'' then
            andThen (addToInflowSheet e fd w) (\<lambda>u w1.
            andThen (moveFileToFolder e (f_fileUrl fd) BufferFolder InflowFolder w1) (\<lambda>u w2.
              (Inr True, w2)))
          else
            andThen (addToOutflowSheet e fd w) (\<lambda>u w1.
            andThen (moveFileToFolder e (f_fileUrl fd) BufferFolder OutflowFolder w1) (\<lambda>u w2.
              (Inr False, w2)))
      | _ \<Rightarrow> (Inl TypeError, w))"

record moveResult =
  m_inflowCount :: nat
  m_outflowCount :: nat
  m_errorCount :: nat
  m_errors :: "cell list"

fun moveLoop :: "env \<Rightarrow> fileData list \<Rightarrow> moveResult \<Rightarrow> world \<Rightarrow> moveResult \<times> world" where
  "moveLoop e [] res w = (res, w)"
| "moveLoop e (fd # fds) res w =
     (case moveOne e fd w of
        (Inr isInflow, w1) \<Rightarrow>
          moveLoop e fds
            (if isInflow then res\<lparr>m_inflowCount := m_inflowCount res + 1\<rparr>
             else res\<lparr>m_outflowCount := m_outflowCount res + 1\<rparr>) w1
      | (Inl err, w1) \<Rightarrow>
          moveLoop e fds
            (res\<lparr>m_errorCount := m_errorCount res + 1, m_errors := m_errors res @ [f_fileName fd]\<rparr>)
            w1)"

definition clearFinalSheet :: "env \<Rightarrow> world \<Rightarrow> unit outcome" where
  "clearFinalSheet e w =
     andThen (getLastRow e FinalSheet w) (\<lambda>lastRow w1.
       if lastRow > 1 then deleteRows e FinalSheet w1 else (Inr (), w1))"

definition moveFilesToInflowOutflow :: "env \<Rightarrow> string \<Rightarrow> world \<Rightarrow> moveResult outcome" where
  "moveFilesToInflowOutflow e clientName w =
     (if clientName = [] then (Inl INVALID_INPUT, w)
      else if faulty e AcquireLock then (Inl SYSTEM_ERROR, w)
      else if faulty e GetClient then (Inl INVALID_INPUT, w)
      else andThen (getSheet e FinalSheet w) (\<lambda>u w1.
           andThen (getSheet e InflowSheet w1) (\<lambda>u w2.
           andThen (getSheet e OutflowSheet w2) (\<lambda>u w3.
             let finalSheetData = getFinalSheetData e w3;
                 res0 = \<lparr> m_inflowCount = 0, m_outflowCount = 0, m_errorCount = 0, m_errors = [] \<rparr>
             in if finalSheetData = [] then (Inr res0, w3)
                else if faulty e GetFolderStructure
                     then (Inl (ServiceError GetFolderStructure), w3)
                else case moveLoop e finalSheetData res0 w3 of
                       (res, w4) \<Rightarrow>
                         if m_errorCount res = 0
                         then andThen (clearFinalSheet e w4) (\<lambda>u w5. (Inr res, w5))
                         else (Inr res, w4)))))"

section \<open>Inserting into the Final sheet after enrichment (AllProcessor.js)\<close>

record activeFile =
  af_rowIndex :: nat
  af_originalFilename :: cell
  af_changedFilename :: cell
  af_fileUrl :: cell
  af_invoiceNumber :: cell
  af_emailSubject :: cell
  af_status :: cell
  af_reason :: cell

text \<open>The data of a successful \<^verbatim>\<open>aiResult\<close>: the validated fields with the new file name
  and the processing date.  The confidence of validated data is a finite number.\<close>

record aiData =
  a_date :: string
  a_vendorName :: string
  a_invoiceNumber :: string
  a_amount :: string
  a_documentType :: string
  a_transactionType :: string
  a_confidence :: rat
  a_newFilename :: string
  a_processingDate :: string

definition isDuplicateInFinalSheet :: "env \<Rightarrow> cell \<Rightarrow> world \<Rightarrow> bool" where
  "isDuplicateInFinalSheet e fileUrl w =
     (case fst (getLastRow e FinalSheet w) of
        Inl err \<Rightarrow> False
      | Inr n \<Rightarrow>
          if n \<le> 1 then False
          else case fst (getValues e FinalSheet w) of
                 Inl err \<Rightarrow> False
               | Inr [] \<Rightarrow> False
               | Inr (headers # rows) \<Rightarrow>
                   (let fileUrlIndex = getColumnIndex headers ''File URL''
                    in if fileUrlIndex = - 1 then False
                       else list_ex (\<lambda>row. safeGetCellValue row fileUrlIndex (CStr []) = fileUrl)
                              rows))"

definition finalRowOfAI :: "env \<Rightarrow> activeFile \<Rightarrow> aiData \<Rightarrow> cell list" where
  "finalRowOfAI e fd ai =
     [ cellOr (CStr (a_newFilename ai)) (af_originalFilename fd),
       CStr (uniqueId e),
       CStr (case extractFileIdFromUrl (af_fileUrl fd) of None \<Rightarrow> [] | Some fid \<Rightarrow> fid),
       af_fileUrl fd,
       CStr [],
       cellOr (af_emailSubject fd) (CStr []),
       CStr [],
       CStr (a_transactionType ai),
       CStr (a_date ai),
       CStr (a_vendorName ai),
       CStr (a_invoiceNumber ai),
       CStr (a_amount ai),
       CStr (a_documentType ai),
       CNum (a_confidence ai),
       cellOr (CStr (a_processingDate ai)) (CStr (now e)),
       CStr (now e) ]"

definition addToFinalSheet :: "env \<Rightarrow> activeFile \<Rightarrow> aiData \<Rightarrow> world \<Rightarrow> unit outcome" where
  "addToFinalSheet e fd ai w = appendRow e FinalSheet (finalRowOfAI e fd ai) w"

record aiCounters =
  c_skipped :: nat
  c_inflowCount :: nat
  c_outflowCount :: nat

text \<open>Lines 85 to 108 of \<^verbatim>\<open>processClientDocumentsWithAI\<close>: the insert into the Final
  sheet of one successfully enriched file, with the counters it updates (the sums of the
  confidence statistics, which are floating-point additions, are left out).  An
  exception of \<^verbatim>\<open>addToFinalSheet\<close> leaves the fragment for the \<^verbatim>\<open>catch\<close> of the
  loop, which counts an error.\<close>

definition insertIntoFinalSheet ::
  "env \<Rightarrow> activeFile \<Rightarrow> aiData \<Rightarrow> aiCounters \<Rightarrow> world \<Rightarrow> aiCounters outcome" where
  "insertIntoFinalSheet e fd ai cnt w =
     (if \<not> isDuplicateInFinalSheet e (af_fileUrl fd) w then
        andThen (addToFinalSheet e fd ai w) (\<lambda>u w1.
          (Inr (if a_transactionType ai = ''inflow''
                then cnt\<lparr>c_inflowCount := c_inflowCount cnt + 1\<rparr>
                else if a_transactionType ai = ''outflow''
                then cnt\<lparr>c_outflowCount := c_outflowCount cnt + 1\<rparr>
                else cnt), w1))
      else (Inr (cnt\<lparr>c_skipped := c_skipped cnt + 1\<rparr>), w))"


section \<open>Concrete environments and worlds\<close>

text \<open>The interval the confidence is meant to stay in.\<close>

fun inUnitInterval :: "jsnum \<Rightarrow> bool" where
  "inUnitInterval (Fin q) = (0 \<le> q \<and> q \<le> 1)"
| "inUnitInterval n = False"

text \<open>An environment in which no service call fails.  Of the run-time it knows the few
  conversions that the examples below need.\<close>

definition quietEnv :: env where
  "quietEnv =
     \<lparr> numToString = (\<lambda>n. if n = Fin 42 then ''42'' else ''0''),
       parseFloatStr = (\<lambda>s. if s = ''1234.50'' then Fin (2469 / 2) else NaN),
       toFixed2 = (\<lambda>n. if n = Fin (- (2469 / 2)) then ''-1234.50'' else ''0.00''),
       newDate = (\<lambda>v. if v = JStr ''Jan 5, 2024'' then ValidDate ''2024-01-05'' else InvalidDate),
       today = ''2026-01-01'', now = ''2026-01-01T00:00:00.000Z'',
       uniqueId = ''3f2c9a10-77aa_k1_r1'', faulty = (\<lambda>c. False) \<rparr>"

text \<open>The cell of the sheet row at position \<open>r\<close> (from 1) in the column with the given
  header, as the code reads it.\<close>

definition sheetCell :: "grid \<Rightarrow> nat \<Rightarrow> string \<Rightarrow> cell" where
  "sheetCell g r columnName =
     safeGetCellValue (g ! (r - 1)) (getColumnIndex (hd g) columnName) (CStr [])"

text \<open>\<^verbatim>\<open>SYSTEM_CONFIG.SHEETS.BUFFER_COLUMNS\<close>, and a row of the Buffer sheet in that
  order.\<close>

definition bufferColumns :: "cell list" where
  "bufferColumns =
     [CStr ''Original File Name'', CStr ''Changed File Name'', CStr ''File URL'', CStr ''File ID'',
      CStr ''Message ID'', CStr ''Invoice Number'', CStr ''Status'', CStr ''Reason'',
      CStr ''Email Subject'', CStr ''Email Sender'', CStr ''Date Added'', CStr ''Last Modified'',
      CStr ''Processing Attempts'']"

definition bufferRow :: "string \<Rightarrow> string \<Rightarrow> string \<Rightarrow> string \<Rightarrow> cell \<Rightarrow> cell \<Rightarrow> cell list" where
  "bufferRow originalName changedName fid invoice status reason =
     [CStr originalName, CStr changedName, CStr (''https://drive.google.com/file/d/'' @ fid @ ''/view''),
      CStr fid, CStr ''m1'', CStr invoice, status, reason, CStr ''Invoice'', CStr ''a@b.c'',
      CStr ''2026-01-01T00:00:00.000Z'', CStr ''2026-01-01T00:00:00.000Z'', CStr ''1'']"

definition emptyWorld :: world where
  "emptyWorld = \<lparr> sheets = (\<lambda>sid. []), driveFiles = [], folders = (\<lambda>f. []) \<rparr>"

definition bufferOnly :: "grid \<Rightarrow> world" where
  "bufferOnly g = emptyWorld\<lparr>sheets := (sheets emptyWorld)(BufferSheet := g)\<rparr>"

text \<open>A Buffer sheet after a deletion pass: row 2 is processed, row 3 is pending.\<close>

definition processedDeletionBuffer :: grid where
  "processedDeletionBuffer =
     [bufferColumns,
      bufferRow ''a.pdf'' [] ''fileA'' [] (CStr ''Deleted'') (CStr ''Deleted: duplicate (2026-01-01T00:00:00.000Z)''),
      bufferRow ''b.pdf'' [] ''fileB'' [] (CStr ''Deleted'') (CStr ''wrong client'')]"

text \<open>A Buffer sheet with a number and a boolean in the Reason column, next to a pending
  deletion (row 3) and a pending reactivation (row 5).\<close>

definition corruptBuffer :: grid where
  "corruptBuffer =
     [bufferColumns,
      bufferRow ''a.pdf'' [] ''fileA'' [] (CStr ''Deleted'') (CNum 42),
      bufferRow ''b.pdf'' [] ''fileB'' [] (CStr ''Deleted'') (CStr ''wrong client''),
      bufferRow ''c.pdf'' [] ''fileC'' [] (CStr ''Active'') (CBool True),
      bufferRow ''d.pdf'' [] ''fileD'' [] (CStr ''Active'') (CStr ''Deleted: x (t)'')]"

text \<open>A reactivated record that carries an invoice number and a changed file name with two
  segments.\<close>

definition restoredItem :: reactivationItem where
  "restoredItem =
     \<lparr> r_rowIndex = 2, r_originalFilename = CStr ''scan0001.pdf'',
       r_changedFilename = CStr ''2024-01-05_Acme.pdf'',
       r_fileUrl = CStr ''https://drive.google.com/file/d/fileA/view'',
       r_fileId = CStr ''fileA'', r_invoiceNumber = CStr ''INV-9'',
       r_emailSubject = CStr ''Invoice'', r_dateAdded = CStr ''2026-01-01T00:00:00.000Z'',
       r_previousReason = CStr ''Deleted: duplicate (2026-01-01T00:00:00.000Z)'' \<rparr>"



text \<open>\<^verbatim>\<open>FINAL_COLUMNS\<close> and \<^verbatim>\<open>FLOW_COLUMNS\<close>, the URL of a Drive file, and a row of the
  Final sheet.\<close>

definition finalColumns :: "cell list" where
  "finalColumns =
     [CStr ''File Name'', CStr ''Unique File ID'', CStr ''Drive File ID'', CStr ''File URL'',
      CStr ''Message ID'', CStr ''Email Subject'', CStr ''Email Sender'',
      CStr ''Inflow/Outflow Status'', CStr ''Date'', CStr ''Vendor Name'', CStr ''Invoice Number'',
      CStr ''Amount'', CStr ''Document Type'', CStr ''AI Confidence'', CStr ''Processing Date'',
      CStr ''Last Modified'']"

definition flowColumns :: "cell list" where
  "flowColumns =
     [CStr ''File Name'', CStr ''Unique File ID'', CStr ''Drive File ID'', CStr ''File URL'',
      CStr ''Message ID'', CStr ''Email Subject'', CStr ''Email Sender'', CStr ''Date'',
      CStr ''Vendor Name'', CStr ''Invoice Number'', CStr ''Amount'', CStr ''Document Type'',
      CStr ''AI Confidence'', CStr ''Processing Date'', CStr ''Moved Date'']"

definition driveUrl :: "string \<Rightarrow> string" where
  "driveUrl fid = ''https://drive.google.com/file/d/'' @ fid @ ''/view''"

definition finalRow :: "string \<Rightarrow> string \<Rightarrow> string \<Rightarrow> cell list" where
  "finalRow name fid status =
     [CStr name, CStr (''u-'' @ fid), CStr fid, CStr (driveUrl fid), CStr [], CStr ''Invoice'',
      CStr [], CStr status, CStr ''2024-01-05'', CStr ''Acme'', CStr ''INV-9'', CStr ''100.00'',
      CStr ''invoice'', CNum (9 / 10), CStr ''2026-01-01T00:00:00.000Z'',
      CStr ''2026-01-01T00:00:00.000Z'']"

text \<open>Two enriched files wait in the Final sheet; the second one is no longer in
  Drive.\<close>

definition partialMoveWorld :: world where
  "partialMoveWorld =
     \<lparr> sheets = (\<lambda>sid. case sid of
                  BufferSheet \<Rightarrow> [bufferColumns]
                | FinalSheet \<Rightarrow> [finalColumns, finalRow ''a.pdf'' ''fileA'' ''inflow'',
                                 finalRow ''b.pdf'' ''fileB'' ''outflow'']
                | InflowSheet \<Rightarrow> [flowColumns]
                | OutflowSheet \<Rightarrow> [flowColumns]),
       driveFiles = [(''fileA'', ''a.pdf'')],
       folders = (\<lambda>f. case f of BufferFolder \<Rightarrow> [''fileA''] | _ \<Rightarrow> []) \<rparr>"

text \<open>The File URL column of the data rows of a sheet, as the code reads it.\<close>

definition fileUrls :: "grid \<Rightarrow> cell list" where
  "fileUrls g = map (\<lambda>row. safeGetCellValue row (getColumnIndex (hd g) ''File URL'') (CStr [])) (tl g)"

text \<open>The counters of \<^verbatim>\<open>moveFilesToInflowOutflow\<close> before its loop.\<close>

definition noMoves :: moveResult where
  "noMoves = \<lparr> m_inflowCount = 0, m_outflowCount = 0, m_errorCount = 0, m_errors = [] \<rparr>"

text \<open>The same Final sheet with both files in Drive.\<close>

definition cleanMoveWorld :: world where
  "cleanMoveWorld =
     partialMoveWorld\<lparr>driveFiles := [(''fileA'', ''a.pdf''), (''fileB'', ''b.pdf'')],
       folders := (\<lambda>f. case f of BufferFolder \<Rightarrow> [''fileA'', ''fileB''] | _ \<Rightarrow> [])\<rparr>"

text \<open>A file of the Buffer sheet that is enriched a second time while its row is still in
  the Final sheet, the data of its enrichment, and the counters before the insert.\<close>

definition duplicateFile :: activeFile where
  "duplicateFile =
     \<lparr> af_rowIndex = 2, af_originalFilename = CStr ''scan0001.pdf'', af_changedFilename = CStr [],
       af_fileUrl = CStr (driveUrl ''fileA''), af_invoiceNumber = CStr [],
       af_emailSubject = CStr ''Invoice'', af_status = CStr ''Active'', af_reason = CStr [] \<rparr>"

definition sampleAiData :: aiData where
  "sampleAiData =
     \<lparr> a_date = ''2024-01-05'', a_vendorName = ''Acme'', a_invoiceNumber = ''INV-9'',
       a_amount = ''100.00'', a_documentType = ''invoice'', a_transactionType = ''inflow'',
       a_confidence = 9 / 10, a_newFilename = ''2024-01-05_Acme_INV-9_100.00.pdf'',
       a_processingDate = ''2026-01-01T00:00:00.000Z'' \<rparr>"

definition noInserts :: aiCounters where
  "noInserts = \<lparr> c_skipped = 0, c_inflowCount = 0, c_outflowCount = 0 \<rparr>"

text \<open>A Buffer sheet whose only row was deleted in an earlier pass and has been set back
  to \<^verbatim>\<open>Active\<close> by hand, with the item that the detection makes of the row.\<close>

definition reactivationWorld :: world where
  "reactivationWorld =
     \<lparr> sheets = (\<lambda>sid. case sid of
                  BufferSheet \<Rightarrow>
                    [bufferColumns,
                     bufferRow ''scan0001.pdf'' ''2024-01-05_Acme_INV-9_100.00.pdf'' ''fileA'' ''INV-9''
                       (CStr ''Active'') (CStr ''Deleted: duplicate (2026-01-01T00:00:00.000Z)'')]
                | FinalSheet \<Rightarrow> [finalColumns]
                | InflowSheet \<Rightarrow> [flowColumns]
                | OutflowSheet \<Rightarrow> [flowColumns]),
       driveFiles = [(''fileA'', ''scan0001.pdf'')],
       folders = (\<lambda>f. case f of BufferFolder \<Rightarrow> [''fileA''] | _ \<Rightarrow> []) \<rparr>"

definition reactivatedItem :: reactivationItem where
  "reactivatedItem =
     \<lparr> r_rowIndex = 2, r_originalFilename = CStr ''scan0001.pdf'',
       r_changedFilename = CStr ''2024-01-05_Acme_INV-9_100.00.pdf'',
       r_fileUrl = CStr ''https://drive.google.com/file/d/fileA/view'',
       r_fileId = CStr ''fileA'', r_invoiceNumber = CStr ''INV-9'',
       r_emailSubject = CStr ''Invoice'', r_dateAdded = CStr ''2026-01-01T00:00:00.000Z'',
       r_previousReason = CStr ''Deleted: duplicate (2026-01-01T00:00:00.000Z)'' \<rparr>"

text \<open>The second world differs from the first in cells of the Buffer sheet only.\<close>

definition onlyBufferSheet :: "world \<Rightarrow> world \<Rightarrow> bool" where
  "onlyBufferSheet w w' =
     (folders w' = folders w \<and> driveFiles w' = driveFiles w
      \<and> (\<forall>sid. sid \<noteq> BufferSheet \<longrightarrow> sheets w' sid = sheets w sid))"

text \<open>An environment in which removing a file from the Inflow folder fails, a world with a
  categorised file whose Buffer row has been set to \<^verbatim>\<open>Deleted\<close> with a reason, and the
  item that the detection makes of the row.\<close>

definition stuckFolderEnv :: env where
  "stuckFolderEnv = quietEnv\<lparr>faulty := (\<lambda>c. c = RemoveFile InflowFolder ''fileA'')\<rparr>"

text \<open>An environment in which the lookup of that file fails.\<close>

definition lostFileEnv :: env where
  "lostFileEnv = quietEnv\<lparr>faulty := (\<lambda>c. c = GetFileById ''fileA'')\<rparr>"

definition deletionWorld :: world where
  "deletionWorld =
     \<lparr> sheets = (\<lambda>sid. case sid of
                  BufferSheet \<Rightarrow>
                    [bufferColumns,
                     bufferRow ''a.pdf'' ''2024-01-05_Acme_INV-9_100.00.pdf'' ''fileA'' ''INV-9''
                       (CStr ''Deleted'') (CStr ''duplicate'')]
                | FinalSheet \<Rightarrow> [finalColumns]
                | InflowSheet \<Rightarrow> [flowColumns, flowRowData quietEnv
                    (finalRowData finalColumns (finalRow ''a.pdf'' ''fileA'' ''inflow''))]
                | OutflowSheet \<Rightarrow> [flowColumns]),
       driveFiles = [(''fileA'', ''a.pdf'')],
       folders = (\<lambda>f. case f of InflowFolder \<Rightarrow> [''fileA''] | _ \<Rightarrow> []) \<rparr>"

definition pendingDeletion :: deletionItem where
  "pendingDeletion =
     \<lparr> d_rowIndex = 2, d_originalFilename = CStr ''a.pdf'',
       d_fileUrl = CStr ''https://drive.google.com/file/d/fileA/view'',
       d_fileId = CStr ''fileA'', d_reason = CStr ''duplicate'' \<rparr>"

section \<open>Properties of the sanitisers\<close>


text \<open>A value that is not falsy converts as its method does, and only the conversion of
  an array or an object can raise.\<close>

lemma js_String_truthy: "truthy v \<Longrightarrow> js_String ns v = js_toString ns v"
  by (cases v) (simp_all add: js_String_def)

lemma loggedDefault_truthy:
  "truthy v \<Longrightarrow>
   loggedDefault e v d =
     (if js_toString (numToString e) v = None then Inl TypeError else Inr d)"
  by (auto simp: loggedDefault_def js_String_truthy split: option.splits)

lemma parseFloat_None:
  "truthy v \<Longrightarrow> (parseFloat e v = None) = (js_toString (numToString e) v = None)"
  by (cases v) (simp_all add: parseFloat_def)


lemma js_newDate_error: "js_newDate e v = Inl err \<Longrightarrow> err = TypeError"
  by (cases v) (auto simp: js_newDate_def split: option.splits)

subsection \<open>The document type\<close>

lemma cleanAndValidateDocumentType_falsy:
  "\<not> truthy v \<Longrightarrow> cleanAndValidateDocumentType e v = Inr ''unknown''"
  by (simp add: cleanAndValidateDocumentType_def cleanAndValidateDocumentType_try_def)

lemma cleanAndValidateDocumentType_converted:
  assumes "truthy v" and "js_toString (numToString e) v = Some s"
  shows "cleanAndValidateDocumentType e v =
     Inr (if trim (toLowerCase s) \<in> set validTypes then trim (toLowerCase s) else ''unknown'')"
  using assms
  by (simp add: cleanAndValidateDocumentType_def cleanAndValidateDocumentType_try_def Let_def)

lemma cleanAndValidateDocumentType_raises:
  assumes "truthy v" and "js_toString (numToString e) v = None"
  shows "cleanAndValidateDocumentType e v = Inl TypeError"
  using assms
  by (simp add: cleanAndValidateDocumentType_def cleanAndValidateDocumentType_try_def
      loggedDefault_truthy)


lemma cleanAndValidateDocumentType_range:
  assumes "cleanAndValidateDocumentType e v = Inr r"
  shows "r \<in> set validTypes \<or> r = ''unknown''"
proof (cases "truthy v")
  case False
  with assms cleanAndValidateDocumentType_falsy [of v e] show ?thesis by simp
next
  case True
  show ?thesis
  proof (cases "js_toString (numToString e) v")
    case None
    with True assms cleanAndValidateDocumentType_raises [of v e] show ?thesis by simp
  next
    case (Some s)
    from cleanAndValidateDocumentType_converted [OF True Some] assms show ?thesis
      by (auto split: if_splits)
  qed
qed




subsection \<open>The confidence\<close>

lemma js_clamp_in_unit_interval:
  "p \<noteq> NaN \<Longrightarrow> inUnitInterval (js_max (Fin 0) (js_min (Fin 1) p))"
  by (cases p) auto

lemma cleanAndValidateConfidence_falsy:
  "\<not> truthy v \<Longrightarrow> cleanAndValidateConfidence e v = Inr (Fin (8 / 10))"
  by (simp add: cleanAndValidateConfidence_def cleanAndValidateConfidence_try_def)

lemma cleanAndValidateConfidence_raises:
  assumes "truthy v" and "js_toString (numToString e) v = None"
  shows "cleanAndValidateConfidence e v = Inl TypeError"
proof -
  from assms have "parseFloat e v = None" by (simp add: parseFloat_None)
  with assms show ?thesis
    by (simp add: cleanAndValidateConfidence_def cleanAndValidateConfidence_try_def
        loggedDefault_truthy)
qed

lemma cleanAndValidateConfidence_returns:
  assumes "\<not> truthy v \<or> js_toString (numToString e) v \<noteq> None"
  shows "\<exists>c. cleanAndValidateConfidence e v = Inr c \<and> inUnitInterval c"
proof (cases "truthy v")
  case False
  then show ?thesis by (simp add: cleanAndValidateConfidence_falsy)
next
  case True
  with assms have "parseFloat e v \<noteq> None" by (simp add: parseFloat_None)
  then obtain p where "parseFloat e v = Some p" by auto
  with True show ?thesis
    by (simp add: cleanAndValidateConfidence_def cleanAndValidateConfidence_try_def
        js_clamp_in_unit_interval)
qed

lemma cleanAndValidateConfidence_in_unit_interval:
  assumes "cleanAndValidateConfidence e v = Inr c"
  shows "inUnitInterval c"
proof (cases "truthy v \<and> js_toString (numToString e) v = None")
  case True
  with assms cleanAndValidateConfidence_raises [of v e] show ?thesis by simp
next
  case False
  then have "\<not> truthy v \<or> js_toString (numToString e) v \<noteq> None" by simp
  from cleanAndValidateConfidence_returns [OF this] assms show ?thesis by auto
qed

lemma cleanAndValidateConfidence_clamps_nonzero:
  "q \<noteq> 0 \<Longrightarrow> cleanAndValidateConfidence e (JNum (Fin q)) = Inr (Fin (max 0 (min 1 q)))"
  by (simp add: cleanAndValidateConfidence_def cleanAndValidateConfidence_try_def parseFloat_def)

text \<open>
  Claim C7 says that a supplied confidence of 0 yields 0.  The sanitiser begins with the
  guard \<^verbatim>\<open>if (!confidenceInput) return 0.8\<close>, which takes the number 0 for a missing
  value, as the other readers of the confidence do (\<^verbatim>\<open>confidence || 0.8\<close>); the prompt
  asks the AI to write 0 for a number it cannot find.  A supplied 0 yields 0.8.
\<close>

theorem confidence_zero_becomes_default:
  "cleanAndValidateConfidence quietEnv (JNum (Fin 0)) = Inr (Fin (8 / 10))
   \<and> cleanAndValidateConfidence quietEnv (JNum (Fin 0)) \<noteq> Inr (Fin 0)"
  by (simp add: cleanAndValidateConfidence_def cleanAndValidateConfidence_try_def)

text \<open>
  Claim C7 as amended: a supplied number other than 0 is clamped into the interval from 0
  to 1 (an infinite one to the nearer end); a missing value, and the number 0 like every
  falsy value, gives 0.8; for every input that is falsy or converts to a string the
  sanitiser returns a value between 0 and 1.  (For the arrays and objects whose conversion
  to a string raises, the sanitiser raises.)
\<close>

theorem confidence_clamped_or_default:
  "(q \<noteq> 0 \<longrightarrow> cleanAndValidateConfidence e (JNum (Fin q)) = Inr (Fin (max 0 (min 1 q))))
   \<and> cleanAndValidateConfidence e (JNum PosInf) = Inr (Fin 1)
   \<and> cleanAndValidateConfidence e (JNum NegInf) = Inr (Fin 0)
   \<and> cleanAndValidateConfidence e (JNum (Fin 0)) = Inr (Fin (8 / 10))
   \<and> (\<not> truthy v \<longrightarrow> cleanAndValidateConfidence e v = Inr (Fin (8 / 10)))
   \<and> (\<not> truthy v \<or> js_toString (numToString e) v \<noteq> None \<longrightarrow>
        (\<exists>c. cleanAndValidateConfidence e v = Inr c \<and> inUnitInterval c))
   \<and> (truthy v \<and> js_toString (numToString e) v = None \<longrightarrow>
        cleanAndValidateConfidence e v = Inl TypeError)"
proof -
  have inf: "cleanAndValidateConfidence e (JNum PosInf) = Inr (Fin 1)"
    "cleanAndValidateConfidence e (JNum NegInf) = Inr (Fin 0)"
    by (simp_all add: cleanAndValidateConfidence_def cleanAndValidateConfidence_try_def
        parseFloat_def)
  have zero: "cleanAndValidateConfidence e (JNum (Fin 0)) = Inr (Fin (8 / 10))"
    by (simp add: cleanAndValidateConfidence_falsy)
  from inf zero show ?thesis
    using cleanAndValidateConfidence_clamps_nonzero [of q e]
      cleanAndValidateConfidence_falsy [of v e]
      cleanAndValidateConfidence_returns [of v e]
      cleanAndValidateConfidence_raises [of v e]
    by blast
qed

theorem confidence_clamped_or_default_witness:
  "cleanAndValidateConfidence quietEnv (JNum (Fin (3 / 2))) = Inr (Fin 1)
   \<and> cleanAndValidateConfidence quietEnv (JNum (Fin (- 2))) = Inr (Fin 0)
   \<and> cleanAndValidateConfidence quietEnv (JNum (Fin (1 / 4))) = Inr (Fin (1 / 4))
   \<and> cleanAndValidateConfidence quietEnv JUndefined = Inr (Fin (8 / 10))
   \<and> inUnitInterval (projr (cleanAndValidateConfidence quietEnv (JStr ''high'')))
   \<and> cleanAndValidateConfidence quietEnv (JObj [(''toString'', JNull)]) = Inl TypeError"
proof -
  note t1 = confidence_clamped_or_default [of "3 / 2" quietEnv JUndefined]
  note t2 = confidence_clamped_or_default [of "- 2" quietEnv "JStr ''high''"]
  note t3 = confidence_clamped_or_default [of "1 / 4" quietEnv "JObj [(''toString'', JNull)]"]
  from t1 have c1: "cleanAndValidateConfidence quietEnv (JNum (Fin (3 / 2))) = Inr (Fin 1)"
    and c4: "cleanAndValidateConfidence quietEnv JUndefined = Inr (Fin (8 / 10))"
    by simp_all
  from t2 have c2: "cleanAndValidateConfidence quietEnv (JNum (Fin (- 2))) = Inr (Fin 0)"
    and c5: "inUnitInterval (projr (cleanAndValidateConfidence quietEnv (JStr ''high'')))"
    by auto
  from t3 have c3: "cleanAndValidateConfidence quietEnv (JNum (Fin (1 / 4))) = Inr (Fin (1 / 4))"
    and c6: "cleanAndValidateConfidence quietEnv (JObj [(''toString'', JNull)]) = Inl TypeError"
    by simp_all
  from c1 c2 c3 c4 c5 c6 show ?thesis by (intro conjI)
qed

section \<open>Properties of the detection functions\<close>

lemma deletionLoop_items:
  "deletionLoop headers i rows = Inr items \<Longrightarrow> it \<in> set items \<Longrightarrow>
   \<exists>k < length rows. d_rowIndex it = i + k + 1
     \<and> (\<exists>s. safeGetCellValue (rows ! k) (getColumnIndex headers ''Reason'') (CStr []) = CStr s
            \<and> \<not> startsWith s ''Deleted:'')"
proof (induction rows arbitrary: i items)
  case Nil
  then show ?case by simp
next
  case (Cons row rows)
  let ?status = "safeGetCellValue row (getColumnIndex headers ''Status'') (CStr [])"
  let ?reason = "safeGetCellValue row (getColumnIndex headers ''Reason'') (CStr [])"
  show ?case
  proof (cases "?status = CStr ''Deleted''")
    case False
    with Cons.prems have "deletionLoop headers (i + 1) rows = Inr items"
      by (simp add: Let_def)
    from Cons.IH [OF this Cons.prems(2)] obtain k where
      "k < length rows" "d_rowIndex it = i + 1 + k + 1"
      "\<exists>s. safeGetCellValue (rows ! k) (getColumnIndex headers ''Reason'') (CStr []) = CStr s
            \<and> \<not> startsWith s ''Deleted:''" by blast
    then show ?thesis by (intro exI [of _ "Suc k"]) simp
  next
    case True
    with Cons.prems(1) obtain b rest where
      b: "cellStartsWith ?reason ''Deleted:'' = Inr b"
      and rest: "deletionLoop headers (i + 1) rows = Inr rest"
      and items: "items = (if b then rest
           else \<lparr> d_rowIndex = i + 1,
                  d_originalFilename = safeGetCellValue row
                     (getColumnIndex headers ''Original File Name'') (CStr []),
                  d_fileUrl = safeGetCellValue row (getColumnIndex headers ''File URL'') (CStr []),
                  d_fileId = safeGetCellValue row (getColumnIndex headers ''File ID'') (CStr []),
                  d_reason = ?reason \<rparr> # rest)"
      by (auto simp: Let_def split: sum.splits)
    show ?thesis
    proof (cases "it \<in> set rest")
      case True
      from Cons.IH [OF rest True] obtain k where
        "k < length rows" "d_rowIndex it = i + 1 + k + 1"
        "\<exists>s. safeGetCellValue (rows ! k) (getColumnIndex headers ''Reason'') (CStr []) = CStr s
              \<and> \<not> startsWith s ''Deleted:''" by blast
      then show ?thesis by (intro exI [of _ "Suc k"]) simp
    next
      case False
      with Cons.prems(2) items have nb: "\<not> b" and it: "d_rowIndex it = i + 1"
        by (auto split: if_splits)
      from b nb obtain s where "?reason = CStr s" "\<not> startsWith s ''Deleted:''"
        by (auto simp: cellStartsWith_def split: cell.splits)
      with it show ?thesis by (intro exI [of _ 0]) simp
    qed
  qed
qed

text \<open>
  Claim C3: a row of the Buffer sheet whose status is \<^verbatim>\<open>Deleted\<close> and whose reason
  already starts with \<^verbatim>\<open>Deleted:\<close> is not among the items that
  \<^verbatim>\<open>getFilesMarkedForDeletion\<close> returns, whatever else the sheet holds and whether or
  not the service calls fail.
\<close>

theorem processed_deletion_excluded:
  assumes "2 \<le> r" and "r \<le> length (sheets w BufferSheet)"
    and "sheetCell (sheets w BufferSheet) r ''Status'' = CStr ''Deleted''"
    and "sheetCell (sheets w BufferSheet) r ''Reason'' = CStr s"
    and "startsWith s ''Deleted:''"
  shows "\<forall>it \<in> set (getFilesMarkedForDeletion e w). d_rowIndex it \<noteq> r"
proof
  fix it
  assume it: "it \<in> set (getFilesMarkedForDeletion e w)"
  from assms obtain headers rows where g: "sheets w BufferSheet = headers # rows"
    by (cases "sheets w BufferSheet") auto
  from it have "getFilesMarkedForDeletion e w \<noteq> []" by auto
  then have loop: "deletionLoop headers 1 rows = Inr (getFilesMarkedForDeletion e w)"
    using g
    by (auto simp: getFilesMarkedForDeletion_def getFilesMarkedForDeletion_try_def
        getLastRow_def getValues_def split: sum.splits if_splits list.splits)
  from deletionLoop_items [OF loop it] obtain k s' where
    k: "k < length rows" "d_rowIndex it = 1 + k + 1"
    and s': "safeGetCellValue (rows ! k) (getColumnIndex headers ''Reason'') (CStr []) = CStr s'"
      "\<not> startsWith s' ''Deleted:''" by blast
  show "d_rowIndex it \<noteq> r"
  proof
    assume "d_rowIndex it = r"
    with k have "r - 1 = Suc k" by simp
    with g have "sheets w BufferSheet ! (r - 1) = rows ! k" by simp
    with assms(4) g s' have "s' = s" by (simp add: sheetCell_def)
    with s' assms(5) show False by simp
  qed
qed


theorem processed_deletion_excluded_witness:
  "2 \<notin> d_rowIndex ` set (getFilesMarkedForDeletion quietEnv (bufferOnly processedDeletionBuffer))
   \<and> map d_rowIndex (getFilesMarkedForDeletion quietEnv (bufferOnly processedDeletionBuffer)) = [3]"
proof -
  have a: "sheets (bufferOnly processedDeletionBuffer) BufferSheet = processedDeletionBuffer"
    by (simp add: bufferOnly_def emptyWorld_def)
  have b: "sheetCell processedDeletionBuffer 2 ''Status'' = CStr ''Deleted''"
    by (simp add: sheetCell_def processedDeletionBuffer_def bufferColumns_def bufferRow_def
        getColumnIndex_def safeGetCellValue_def)
  have c: "sheetCell processedDeletionBuffer 2 ''Reason''
      = CStr ''Deleted: duplicate (2026-01-01T00:00:00.000Z)''"
    by (simp add: sheetCell_def processedDeletionBuffer_def bufferColumns_def bufferRow_def
        getColumnIndex_def safeGetCellValue_def)
  have d: "startsWith ''Deleted: duplicate (2026-01-01T00:00:00.000Z)'' ''Deleted:''"
    by (simp add: startsWith_def)
  have l: "(2::nat) \<le> length processedDeletionBuffer"
    by (simp add: processedDeletionBuffer_def)
  have e: "map d_rowIndex (getFilesMarkedForDeletion quietEnv (bufferOnly processedDeletionBuffer)) = [3]"
    by code_simp
  have two: "(2::nat) \<le> 2" by simp
  from processed_deletion_excluded [of 2 "bufferOnly processedDeletionBuffer"
      "''Deleted: duplicate (2026-01-01T00:00:00.000Z)''" quietEnv, unfolded a, OF two l b c d]
  have n: "2 \<notin> d_rowIndex ` set (getFilesMarkedForDeletion quietEnv
      (bufferOnly processedDeletionBuffer))" by auto
  from n e show ?thesis by (rule conjI)
qed

lemma deletionLoop_TypeError:
  assumes "k < length rows"
    and "safeGetCellValue (rows ! k) (getColumnIndex headers ''Status'') (CStr []) = CStr ''Deleted''"
    and "\<forall>s. safeGetCellValue (rows ! k) (getColumnIndex headers ''Reason'') (CStr []) \<noteq> CStr s"
  shows "deletionLoop headers i rows = Inl TypeError"
  using assms
proof (induction rows arbitrary: i k)
  case Nil
  then show ?case by simp
next
  case (Cons row rows)
  show ?case
  proof (cases k)
    case 0
    with Cons.prems show ?thesis
      by (auto simp: Let_def cellStartsWith_def split: cell.splits)
  next
    case (Suc j)
    with Cons.prems have "deletionLoop headers (i + 1) rows = Inl TypeError"
      by (intro Cons.IH [of j]) auto
    then show ?thesis
      by (auto simp: Let_def cellStartsWith_def split: cell.splits sum.splits)
  qed
qed

lemma reactivationLoop_TypeError:
  assumes "k < length rows"
    and "safeGetCellValue (rows ! k) (getColumnIndex headers ''Status'') (CStr []) = CStr ''Active''"
    and "\<forall>s. safeGetCellValue (rows ! k) (getColumnIndex headers ''Reason'') (CStr []) \<noteq> CStr s"
  shows "reactivationLoop headers i rows = Inl TypeError"
  using assms
proof (induction rows arbitrary: i k)
  case Nil
  then show ?case by simp
next
  case (Cons row rows)
  show ?case
  proof (cases k)
    case 0
    with Cons.prems show ?thesis
      by (auto simp: Let_def cellStartsWith_def split: cell.splits)
  next
    case (Suc j)
    with Cons.prems have "reactivationLoop headers (i + 1) rows = Inl TypeError"
      by (intro Cons.IH [of j]) auto
    then show ?thesis
      by (auto simp: Let_def cellStartsWith_def split: cell.splits sum.splits)
  qed
qed

lemma corrupt_row_deletion:
  assumes "2 \<le> r" and "r \<le> length (sheets w BufferSheet)"
    and "sheetCell (sheets w BufferSheet) r ''Status'' = CStr ''Deleted''"
    and "\<forall>s. sheetCell (sheets w BufferSheet) r ''Reason'' \<noteq> CStr s"
  shows "getFilesMarkedForDeletion e w = []"
proof -
  from assms obtain headers rows where g: "sheets w BufferSheet = headers # rows"
    by (cases "sheets w BufferSheet") auto
  from assms(1,2) g have k: "r - 2 < length rows" by auto
  from assms(1) g have nth: "sheets w BufferSheet ! (r - 1) = rows ! (r - 2)"
    by (cases r) (auto simp: numeral_2_eq_2)
  from deletionLoop_TypeError [OF k, of headers 1] assms(3,4) g nth
  have "deletionLoop headers 1 rows = Inl TypeError" by (simp add: sheetCell_def)
  with g show ?thesis
    by (simp add: getFilesMarkedForDeletion_def getFilesMarkedForDeletion_try_def
        getLastRow_def getValues_def)
qed

lemma corrupt_row_reactivation:
  assumes "2 \<le> r" and "r \<le> length (sheets w BufferSheet)"
    and "sheetCell (sheets w BufferSheet) r ''Status'' = CStr ''Active''"
    and "\<forall>s. sheetCell (sheets w BufferSheet) r ''Reason'' \<noteq> CStr s"
  shows "getFilesMarkedForReactivation e w = []"
proof -
  from assms obtain headers rows where g: "sheets w BufferSheet = headers # rows"
    by (cases "sheets w BufferSheet") auto
  from assms(1,2) g have k: "r - 2 < length rows" by auto
  from assms(1) g have nth: "sheets w BufferSheet ! (r - 1) = rows ! (r - 2)"
    by (cases r) (auto simp: numeral_2_eq_2)
  from reactivationLoop_TypeError [OF k, of headers 1] assms(3,4) g nth
  have "reactivationLoop headers 1 rows = Inl TypeError" by (simp add: sheetCell_def)
  with g show ?thesis
    by (simp add: getFilesMarkedForReactivation_def getFilesMarkedForReactivation_try_def
        getLastRow_def getValues_def)
qed

lemma unreadable_sheet:
  "faulty e (GetLastRow BufferSheet) \<or> faulty e (GetValues BufferSheet) \<Longrightarrow>
   getFilesMarkedForDeletion e w = [] \<and> getFilesMarkedForReactivation e w = []"
  by (auto simp: getFilesMarkedForDeletion_def getFilesMarkedForDeletion_try_def
      getFilesMarkedForReactivation_def getFilesMarkedForReactivation_try_def
      getLastRow_def getValues_def)

text \<open>
  Claim C10: both detection functions return an array for every Buffer sheet (the model's
  functions are total and their result type has no error).  Whenever the body of the
  \<^verbatim>\<open>try\<close> raises, the result is the empty array; this is the case when the sheet cannot be
  read, and when a row with the status the function looks for has a Reason cell that is
  no string, even if other rows are pending.
\<close>

theorem detection_returns_empty_on_error:
  "(getFilesMarkedForDeletion_try e w = Inl err \<longrightarrow> getFilesMarkedForDeletion e w = [])
   \<and> (getFilesMarkedForReactivation_try e w = Inl err' \<longrightarrow> getFilesMarkedForReactivation e w = [])
   \<and> (faulty e (GetLastRow BufferSheet) \<or> faulty e (GetValues BufferSheet) \<longrightarrow>
        getFilesMarkedForDeletion e w = [] \<and> getFilesMarkedForReactivation e w = [])
   \<and> (2 \<le> r \<and> r \<le> length (sheets w BufferSheet)
        \<and> sheetCell (sheets w BufferSheet) r ''Status'' = CStr ''Deleted''
        \<and> (\<forall>s. sheetCell (sheets w BufferSheet) r ''Reason'' \<noteq> CStr s) \<longrightarrow>
        getFilesMarkedForDeletion e w = [])
   \<and> (2 \<le> r' \<and> r' \<le> length (sheets w BufferSheet)
        \<and> sheetCell (sheets w BufferSheet) r' ''Status'' = CStr ''Active''
        \<and> (\<forall>s. sheetCell (sheets w BufferSheet) r' ''Reason'' \<noteq> CStr s) \<longrightarrow>
        getFilesMarkedForReactivation e w = [])"
proof -
  have a: "getFilesMarkedForDeletion_try e w = Inl err \<longrightarrow> getFilesMarkedForDeletion e w = []"
    by (simp add: getFilesMarkedForDeletion_def)
  have b: "getFilesMarkedForReactivation_try e w = Inl err' \<longrightarrow>
      getFilesMarkedForReactivation e w = []"
    by (simp add: getFilesMarkedForReactivation_def)
  show ?thesis
    using a b unreadable_sheet [of e w] corrupt_row_deletion [of r w e]
      corrupt_row_reactivation [of r' w e]
    by blast
qed

theorem detection_returns_empty_on_error_witness:
  "getFilesMarkedForDeletion_try quietEnv (bufferOnly corruptBuffer) = Inl TypeError
   \<and> getFilesMarkedForReactivation_try quietEnv (bufferOnly corruptBuffer) = Inl TypeError
   \<and> getFilesMarkedForDeletion quietEnv (bufferOnly corruptBuffer) = []
   \<and> getFilesMarkedForReactivation quietEnv (bufferOnly corruptBuffer) = []"
proof -
  have a: "getFilesMarkedForDeletion_try quietEnv (bufferOnly corruptBuffer) = Inl TypeError"
    by code_simp
  have b: "getFilesMarkedForReactivation_try quietEnv (bufferOnly corruptBuffer) = Inl TypeError"
    by code_simp
  from a b
    detection_returns_empty_on_error [of quietEnv "bufferOnly corruptBuffer" TypeError TypeError]
  show ?thesis by simp
qed

section \<open>Properties of the reactivation\<close>

text \<open>
  Claim C9: a reactivated record that needs no new enrichment (\<^verbatim>\<open>hasValidAIData\<close>) and
  whose changed file name has fewer than four underscore-separated segments before the
  extension: \<^verbatim>\<open>parseFilenameForAIData\<close> returns \<^verbatim>\<open>null\<close>, and
  \<^verbatim>\<open>restoreToFinalSheet\<close> appends one row to the Final sheet whose transaction type is
  \<^verbatim>\<open>inflow\<close>, whose date, vendor name and amount are empty, whose invoice number is
  the one of the Buffer row, whose document type is \<^verbatim>\<open>restored\<close> and whose confidence
  is 0.8 (the Final sheet and its append being available).
\<close>

theorem restore_without_parsed_fields:
  assumes valid: "hasValidAIData reactivationItem"
    and name: "r_changedFilename reactivationItem = CStr filename"
    and few: "length (splitOn (CHR ''_'') (substring0 filename (lastIndexOf filename (CHR ''.'')))) < 4"
    and ok: "\<not> faulty e (GetSheet FinalSheet)" "\<not> faulty e (AppendRow FinalSheet (restoreRowData e reactivationItem))"
  shows "parseFilenameForAIData (r_changedFilename reactivationItem) = None
    \<and> restoreToFinalSheet e reactivationItem w =
        (Inr (), w\<lparr>sheets := (sheets w)
           (FinalSheet := sheets w FinalSheet @ [restoreRowData e reactivationItem])\<rparr>)
    \<and> length (restoreRowData e reactivationItem) = 16
    \<and> restoreRowData e reactivationItem ! 7 = CStr ''inflow''
    \<and> restoreRowData e reactivationItem ! 8 = CStr []
    \<and> restoreRowData e reactivationItem ! 9 = CStr []
    \<and> restoreRowData e reactivationItem ! 10 = r_invoiceNumber reactivationItem
    \<and> restoreRowData e reactivationItem ! 11 = CStr []
    \<and> restoreRowData e reactivationItem ! 12 = CStr ''restored''
    \<and> restoreRowData e reactivationItem ! 13 = CNum (8 / 10)"
proof -
  have p: "parseFilenameForAIData (r_changedFilename reactivationItem) = None"
    using name few by (simp add: parseFilenameForAIData_def Let_def)
  have r: "restoreToFinalSheet e reactivationItem w =
        (Inr (), w\<lparr>sheets := (sheets w)
           (FinalSheet := sheets w FinalSheet @ [restoreRowData e reactivationItem])\<rparr>)"
    using ok by (simp add: restoreToFinalSheet_def getSheet_def appendRow_def andThen_def)
  from valid have inv: "cellTruthy (r_invoiceNumber reactivationItem)"
    by (simp add: hasValidAIData_def)
  show ?thesis using p r inv by (simp add: restoreRowData_def Let_def cellOr_def)
qed

theorem restore_without_parsed_fields_witness:
  "parseFilenameForAIData (r_changedFilename restoredItem) = None
   \<and> sheets (snd (restoreToFinalSheet quietEnv restoredItem emptyWorld)) FinalSheet =
       [[CStr ''2024-01-05_Acme.pdf'', CStr ''3f2c9a10-77aa_k1_r1'', CStr ''fileA'',
         CStr ''https://drive.google.com/file/d/fileA/view'', CStr [], CStr ''Invoice'', CStr [],
         CStr ''inflow'', CStr [], CStr [], CStr ''INV-9'', CStr [], CStr ''restored'',
         CNum (8 / 10), CStr ''2026-01-01T00:00:00.000Z'', CStr ''2026-01-01T00:00:00.000Z'']]"
proof -
  have v: "hasValidAIData restoredItem" by code_simp
  have n: "r_changedFilename restoredItem = CStr ''2024-01-05_Acme.pdf''"
    by (simp add: restoredItem_def)
  have f: "length (splitOn (CHR ''_'') (substring0 ''2024-01-05_Acme.pdf''
      (lastIndexOf ''2024-01-05_Acme.pdf'' (CHR ''.'')))) < 4" by code_simp
  have q: "\<not> faulty quietEnv (GetSheet FinalSheet)" "\<not> faulty quietEnv (AppendRow FinalSheet rowData)" for rowData
    by (simp_all add: quietEnv_def)
  have row: "restoreRowData quietEnv restoredItem =
       [CStr ''2024-01-05_Acme.pdf'', CStr ''3f2c9a10-77aa_k1_r1'', CStr ''fileA'',
         CStr ''https://drive.google.com/file/d/fileA/view'', CStr [], CStr ''Invoice'', CStr [],
         CStr ''inflow'', CStr [], CStr [], CStr ''INV-9'', CStr [], CStr ''restored'',
         CNum (8 / 10), CStr ''2026-01-01T00:00:00.000Z'', CStr ''2026-01-01T00:00:00.000Z'']"
    by code_simp
  from restore_without_parsed_fields [OF v n f q, of emptyWorld] row show ?thesis
    by (simp add: emptyWorld_def)
qed

section \<open>Properties of the validated AI response\<close>

subsection \<open>The transaction type, the texts, the date and the amount\<close>








subsection \<open>The record\<close>







section \<open>Properties of the move to the Inflow and Outflow sheets\<close>

lemma andThen_Inr [simp]: "andThen (Inr x, w) f = f x w" by (simp add: andThen_def)
lemma andThen_Inl [simp]: "andThen (Inl err, w) f = (Inl err, w)" by (simp add: andThen_def)

lemma appendRow_other: "sid' \<noteq> sid \<Longrightarrow> sheets (snd (appendRow e sid row w)) sid' = sheets w sid'"
  by (simp add: appendRow_def)
lemma getFileById_world: "snd (getFileById e fid w) = w"
  by (simp add: getFileById_def split: option.splits)
lemma addFile_sheets: "sheets (snd (addFile e f fid w)) = sheets w"
  by (simp add: addFile_def)
lemma removeFile_sheets: "sheets (snd (removeFile e f fid w)) = sheets w"
  by (simp add: removeFile_def)

lemma snd_andThen:
  "snd (andThen r f) = (case r of (Inl err, w) \<Rightarrow> w | (Inr x, w) \<Rightarrow> snd (f x w))"
  by (simp add: andThen_def split: prod.splits sum.splits)

lemma moveFileToFolder_sheets: "sheets (snd (moveFileToFolder e url s t w)) = sheets w"
proof (cases "extractFileIdFromUrl url")
  case None
  then show ?thesis by (simp add: moveFileToFolder_def)
next
  case (Some fid)
  obtain r1 w1 where g: "getFileById e fid w = (r1, w1)" by (cases "getFileById e fid w")
  with getFileById_world [of e fid w] have w1: "w1 = w" by simp
  show ?thesis
  proof (cases r1)
    case (Inl err)
    with Some g w1 show ?thesis by (simp add: moveFileToFolder_def)
  next
    case (Inr name)
    obtain r2 w2 where a: "addFile e t fid w = (r2, w2)" by (cases "addFile e t fid w")
    with addFile_sheets [of e t fid w] have w2: "sheets w2 = sheets w" by simp
    show ?thesis
    proof (cases r2)
      case (Inl err)
      with Some g w1 Inr a w2 show ?thesis by (simp add: moveFileToFolder_def)
    next
      case (Inr u)
      with Some g w1 \<open>r1 = Inr name\<close> a w2 removeFile_sheets [of e s fid w2]
      show ?thesis by (simp add: moveFileToFolder_def)
    qed
  qed
qed


lemma moveFileToFolder_sheetsD:
  "moveFileToFolder e url s t w = (r, w') \<Longrightarrow> sheets w' = sheets w"
  using moveFileToFolder_sheets [of e url s t w] by simp

lemma moveOne_final: "moveOne e fd w = (r, w') \<Longrightarrow> sheets w' FinalSheet = sheets w FinalSheet"
  by (auto simp: moveOne_def addToInflowSheet_def addToOutflowSheet_def appendRow_def andThen_def
      split: cell.splits prod.splits sum.splits if_splits dest!: moveFileToFolder_sheetsD)

lemma moveLoop_final:
  "moveLoop e fds res w = (res', w') \<Longrightarrow> sheets w' FinalSheet = sheets w FinalSheet"
proof (induction fds arbitrary: res w)
  case Nil
  then show ?case by simp
next
  case (Cons fd fds)
  obtain r w1 where one: "moveOne e fd w = (r, w1)" by (cases "moveOne e fd w")
  from moveOne_final [OF one] have keep: "sheets w1 FinalSheet = sheets w FinalSheet" .
  from Cons.prems one obtain res1 where "moveLoop e fds res1 w1 = (res', w')"
    by (cases r) (auto split: if_splits)
  from Cons.IH [OF this] keep show ?case by simp
qed

lemma clearFinalSheet_cases:
  "clearFinalSheet e w = (r, w') \<Longrightarrow>
   w' = w \<or> (r = Inr () \<and> w' = w\<lparr>sheets := (sheets w)(FinalSheet := take 1 (sheets w FinalSheet))\<rparr>)"
  by (auto simp: clearFinalSheet_def getLastRow_def deleteRows_def andThen_def split: if_splits)

text \<open>
  Claim C8: in \<^verbatim>\<open>moveFilesToInflowOutflow\<close> the Final sheet changes only when the loop
  over its rows counted no error, and then it is cleared down to its header row; when the
  function returns a result with a positive error count, the world it leaves is exactly
  the world after the loop (the rows appended and the files moved for the other rows
  stay) and the Final sheet is as it was.  The result counters are those of the loop.
\<close>

theorem final_sheet_cleared_only_without_errors:
  assumes run: "moveFilesToInflowOutflow e clientName w = (r, w')"
  shows "(sheets w' FinalSheet \<noteq> sheets w FinalSheet \<longrightarrow>
            m_errorCount (fst (moveLoop e (getFinalSheetData e w) noMoves w)) = 0
            \<and> sheets w' FinalSheet = take 1 (sheets w FinalSheet))
     \<and> (\<forall>res. r = Inr res \<longrightarrow>
            res = fst (moveLoop e (getFinalSheetData e w) noMoves w)
            \<and> (m_errorCount res \<noteq> 0 \<longrightarrow>
                 w' = snd (moveLoop e (getFinalSheetData e w) noMoves w)
                 \<and> sheets w' FinalSheet = sheets w FinalSheet))"
proof -
  obtain resL wL where L: "moveLoop e (getFinalSheetData e w) noMoves w = (resL, wL)"
    by (cases "moveLoop e (getFinalSheetData e w) noMoves w")
  from moveLoop_final [OF L] have keep: "sheets wL FinalSheet = sheets w FinalSheet" .
  obtain rc wc where C: "clearFinalSheet e wL = (rc, wc)" by (cases "clearFinalSheet e wL")
  from clearFinalSheet_cases [OF C] have cc:
    "wc = wL \<or> (rc = Inr () \<and> wc = wL\<lparr>sheets := (sheets wL)(FinalSheet := take 1 (sheets wL FinalSheet))\<rparr>)" .
  have pre: "(r, w') = (Inl INVALID_INPUT, w) \<or> (r, w') = (Inl SYSTEM_ERROR, w)
      \<or> (\<exists>sid. (r, w') = (Inl (ServiceError (GetSheet sid)), w))
      \<or> (getFinalSheetData e w = [] \<and> (r, w') = (Inr noMoves, w))
      \<or> (r, w') = (Inl (ServiceError GetFolderStructure), w)
      \<or> (m_errorCount resL \<noteq> 0 \<and> (r, w') = (Inr resL, wL))
      \<or> (m_errorCount resL = 0 \<and> (\<exists>err. (r, w') = (Inl err, wc)))
      \<or> (m_errorCount resL = 0 \<and> rc = Inr () \<and> (r, w') = (Inr resL, wc))"
    using run L C
    by (auto simp: moveFilesToInflowOutflow_def getSheet_def andThen_def Let_def noMoves_def
        split: if_splits sum.splits)
  have empty: "getFinalSheetData e w = [] \<Longrightarrow> resL = noMoves \<and> wL = w"
    using L by simp
  show ?thesis using pre keep cc empty L
    by (auto simp: noMoves_def)
qed


theorem final_sheet_cleared_only_without_errors_witness:
  "fst (moveFilesToInflowOutflow quietEnv ''acme'' partialMoveWorld) =
      Inr \<lparr> m_inflowCount = 1, m_outflowCount = 0, m_errorCount = 1, m_errors = [CStr ''b.pdf''] \<rparr>
   \<and> sheets (snd (moveFilesToInflowOutflow quietEnv ''acme'' partialMoveWorld)) FinalSheet =
       sheets partialMoveWorld FinalSheet
   \<and> fileUrls (sheets (snd (moveFilesToInflowOutflow quietEnv ''acme'' partialMoveWorld)) InflowSheet) =
       [CStr (driveUrl ''fileA'')]
   \<and> folders (snd (moveFilesToInflowOutflow quietEnv ''acme'' partialMoveWorld)) InflowFolder = [''fileA'']
   \<and> m_errorCount (fst (moveLoop quietEnv (getFinalSheetData quietEnv cleanMoveWorld) noMoves cleanMoveWorld)) = 0
   \<and> sheets (snd (moveFilesToInflowOutflow quietEnv ''acme'' cleanMoveWorld)) FinalSheet = [finalColumns]"
proof -
  have a: "fst (moveFilesToInflowOutflow quietEnv ''acme'' partialMoveWorld) =
      Inr \<lparr> m_inflowCount = 1, m_outflowCount = 0, m_errorCount = 1, m_errors = [CStr ''b.pdf''] \<rparr>"
    by code_simp
  have b: "fileUrls (sheets (snd (moveLoop quietEnv (getFinalSheetData quietEnv partialMoveWorld)
       noMoves partialMoveWorld)) InflowSheet) = [CStr (driveUrl ''fileA'')]"
    by code_simp
  have c: "folders (snd (moveLoop quietEnv (getFinalSheetData quietEnv partialMoveWorld)
       noMoves partialMoveWorld)) InflowFolder = [''fileA'']"
    by code_simp
  have d: "sheets (snd (moveFilesToInflowOutflow quietEnv ''acme'' cleanMoveWorld)) FinalSheet
      = [finalColumns]"
    by code_simp
  have e: "sheets cleanMoveWorld FinalSheet \<noteq> [finalColumns]"
    by (simp add: cleanMoveWorld_def partialMoveWorld_def)
  note p = final_sheet_cleared_only_without_errors [OF prod.collapse [symmetric], of quietEnv "''acme''" partialMoveWorld]
  note q = final_sheet_cleared_only_without_errors [OF prod.collapse [symmetric], of quietEnv "''acme''" cleanMoveWorld]
  from p have p2: "\<And>res. fst (moveFilesToInflowOutflow quietEnv ''acme'' partialMoveWorld) = Inr res
      \<Longrightarrow> m_errorCount res \<noteq> 0
      \<Longrightarrow> snd (moveFilesToInflowOutflow quietEnv ''acme'' partialMoveWorld) =
            snd (moveLoop quietEnv (getFinalSheetData quietEnv partialMoveWorld) noMoves
              partialMoveWorld)
          \<and> sheets (snd (moveFilesToInflowOutflow quietEnv ''acme'' partialMoveWorld)) FinalSheet =
            sheets partialMoveWorld FinalSheet"
    by blast
  have ne: "m_errorCount \<lparr> m_inflowCount = 1, m_outflowCount = 0, m_errorCount = 1,
      m_errors = [CStr ''b.pdf''] \<rparr> \<noteq> 0" by simp
  have s: "snd (moveFilesToInflowOutflow quietEnv ''acme'' partialMoveWorld) =
        snd (moveLoop quietEnv (getFinalSheetData quietEnv partialMoveWorld) noMoves partialMoveWorld)"
    using p2 [OF a ne] by (rule conjunct1)
  have f: "sheets (snd (moveFilesToInflowOutflow quietEnv ''acme'' partialMoveWorld)) FinalSheet =
        sheets partialMoveWorld FinalSheet"
    using p2 [OF a ne] by (rule conjunct2)
  from d e have "sheets (snd (moveFilesToInflowOutflow quietEnv ''acme'' cleanMoveWorld)) FinalSheet
      \<noteq> sheets cleanMoveWorld FinalSheet" by simp
  with q have z: "m_errorCount (fst (moveLoop quietEnv (getFinalSheetData quietEnv cleanMoveWorld)
      noMoves cleanMoveWorld)) = 0" by blast
  from b c have b': "fileUrls (sheets (snd (moveFilesToInflowOutflow quietEnv ''acme''
        partialMoveWorld)) InflowSheet) = [CStr (driveUrl ''fileA'')]"
    and c': "folders (snd (moveFilesToInflowOutflow quietEnv ''acme'' partialMoveWorld))
        InflowFolder = [''fileA'']"
    unfolding s by simp_all
  show ?thesis by (intro conjI) (rule a f b' c' z d)+
qed

section \<open>Properties of the inserts\<close>

text \<open>
  Claim C2 says that every insert into the Final, Inflow and Outflow sheets is preceded by
  a check for a row with the same File URL, so that no such sheet ever holds two of them.
  \<^verbatim>\<open>addToInflowSheet\<close> and \<^verbatim>\<open>addToOutflowSheet\<close> append without any check.  With two
  rows in the Final sheet, the second of a file that has left Drive, the first run of
  \<^verbatim>\<open>moveFilesToInflowOutflow\<close> appends the first row to the Inflow sheet and counts one
  error, so the Final sheet is not cleared; the second run appends the first row again.
\<close>

theorem category_sheet_duplicate_after_rerun:
  "distinct (fileUrls (sheets partialMoveWorld InflowSheet))
   \<and> fileUrls (sheets (snd (moveFilesToInflowOutflow quietEnv ''acme''
        (snd (moveFilesToInflowOutflow quietEnv ''acme'' partialMoveWorld)))) InflowSheet) =
       [CStr (driveUrl ''fileA''), CStr (driveUrl ''fileA'')]"
  by code_simp

lemma isDuplicateInFinalSheet_readable:
  assumes "sheets w FinalSheet = headers # rows" and "getColumnIndex headers ''File URL'' = 3"
    and "\<not> faulty e (GetLastRow FinalSheet)" and "\<not> faulty e (GetValues FinalSheet)"
  shows "isDuplicateInFinalSheet e url w = (url \<in> set (fileUrls (sheets w FinalSheet)))"
proof (cases rows)
  case Nil
  with assms show ?thesis
    by (simp add: isDuplicateInFinalSheet_def getLastRow_def fileUrls_def)
next
  case (Cons row rest)
  with assms show ?thesis
    by (auto simp: isDuplicateInFinalSheet_def getLastRow_def getValues_def fileUrls_def
        list_ex_iff)
qed

lemma finalRowOfAI_url: "safeGetCellValue (finalRowOfAI e fd ai) 3 (CStr []) = af_fileUrl fd"
  by (simp add: finalRowOfAI_def safeGetCellValue_def)

text \<open>
  Claim C2 as amended: the insert into the Final sheet that follows a successful
  enrichment is skipped when a row of the sheet has the same File URL; the skip is counted
  in \<^verbatim>\<open>skipped\<close>, raises nothing and leaves the world as it is, and the File URLs of a
  readable Final sheet with the column in its fourth position stay distinct through this
  insert.  The inserts into the Inflow and Outflow sheets append their row whatever the
  sheet holds.
\<close>

theorem final_insert_skips_duplicate:
  assumes hdr: "sheets w FinalSheet = headers # rows"
    and col: "getColumnIndex headers ''File URL'' = 3"
    and rd: "\<not> faulty e (GetLastRow FinalSheet)" "\<not> faulty e (GetValues FinalSheet)"
    and dist: "distinct (fileUrls (sheets w FinalSheet))"
    and run: "insertIntoFinalSheet e fd ai cnt w = (r, w')"
  shows "distinct (fileUrls (sheets w' FinalSheet))
    \<and> (af_fileUrl fd \<in> set (fileUrls (sheets w FinalSheet)) \<longrightarrow>
          r = Inr (cnt\<lparr>c_skipped := c_skipped cnt + 1\<rparr>) \<and> w' = w)
    \<and> (\<not> faulty e (AppendRow InflowSheet (flowRowData e fd')) \<longrightarrow>
          sheets (snd (addToInflowSheet e fd' w0)) InflowSheet =
            sheets w0 InflowSheet @ [flowRowData e fd'])
    \<and> (\<not> faulty e (AppendRow OutflowSheet (flowRowData e fd')) \<longrightarrow>
          sheets (snd (addToOutflowSheet e fd' w0)) OutflowSheet =
            sheets w0 OutflowSheet @ [flowRowData e fd'])"
proof -
  note dup = isDuplicateInFinalSheet_readable [OF hdr col rd, of "af_fileUrl fd"]
  have skip: "af_fileUrl fd \<in> set (fileUrls (sheets w FinalSheet)) \<longrightarrow>
      r = Inr (cnt\<lparr>c_skipped := c_skipped cnt + 1\<rparr>) \<and> w' = w"
    using run dup by (auto simp: insertIntoFinalSheet_def)
  have d: "distinct (fileUrls (sheets w' FinalSheet))"
  proof (cases "af_fileUrl fd \<in> set (fileUrls (sheets w FinalSheet))")
    case True
    with skip dist show ?thesis by simp
  next
    case False
    with dup run have "w' = w \<or> w' = w\<lparr>sheets := (sheets w)
        (FinalSheet := sheets w FinalSheet @ [finalRowOfAI e fd ai])\<rparr>"
      by (auto simp: insertIntoFinalSheet_def addToFinalSheet_def appendRow_def andThen_def
          split: if_splits)
    then show ?thesis
    proof
      assume "w' = w"
      with dist show ?thesis by simp
    next
      assume "w' = w\<lparr>sheets := (sheets w)
        (FinalSheet := sheets w FinalSheet @ [finalRowOfAI e fd ai])\<rparr>"
      then have "fileUrls (sheets w' FinalSheet) =
          fileUrls (sheets w FinalSheet) @ [af_fileUrl fd]"
        using hdr col by (simp add: fileUrls_def finalRowOfAI_url)
      with False dist show ?thesis by simp
    qed
  qed
  have i: "\<not> faulty e (AppendRow InflowSheet (flowRowData e fd')) \<longrightarrow>
          sheets (snd (addToInflowSheet e fd' w0)) InflowSheet =
            sheets w0 InflowSheet @ [flowRowData e fd']"
    by (simp add: addToInflowSheet_def appendRow_def)
  have o: "\<not> faulty e (AppendRow OutflowSheet (flowRowData e fd')) \<longrightarrow>
          sheets (snd (addToOutflowSheet e fd' w0)) OutflowSheet =
            sheets w0 OutflowSheet @ [flowRowData e fd']"
    by (simp add: addToOutflowSheet_def appendRow_def)
  from d skip i o show ?thesis by blast
qed

theorem final_insert_skips_duplicate_witness:
  "insertIntoFinalSheet quietEnv duplicateFile sampleAiData noInserts partialMoveWorld =
     (Inr \<lparr> c_skipped = 1, c_inflowCount = 0, c_outflowCount = 0 \<rparr>, partialMoveWorld)
   \<and> distinct (fileUrls (sheets (snd (insertIntoFinalSheet quietEnv duplicateFile sampleAiData
        noInserts partialMoveWorld)) FinalSheet))"
proof -
  have h: "sheets partialMoveWorld FinalSheet =
      finalColumns # [finalRow ''a.pdf'' ''fileA'' ''inflow'', finalRow ''b.pdf'' ''fileB'' ''outflow'']"
    by (simp add: partialMoveWorld_def)
  have c: "getColumnIndex finalColumns ''File URL'' = 3"
    by (simp add: getColumnIndex_def finalColumns_def)
  have q: "\<not> faulty quietEnv (GetLastRow FinalSheet)" "\<not> faulty quietEnv (GetValues FinalSheet)"
    by (simp_all add: quietEnv_def)
  have u: "fileUrls (sheets partialMoveWorld FinalSheet) =
      [CStr (driveUrl ''fileA''), CStr (driveUrl ''fileB'')]"
    by code_simp
  have d: "distinct (fileUrls (sheets partialMoveWorld FinalSheet))"
    unfolding u by (simp add: driveUrl_def)
  have m: "af_fileUrl duplicateFile \<in> set (fileUrls (sheets partialMoveWorld FinalSheet))"
    unfolding u by (simp add: duplicateFile_def)
  note t = final_insert_skips_duplicate [OF h c q d prod.collapse [symmetric], of duplicateFile sampleAiData noInserts]
  from t have dd: "distinct (fileUrls (sheets (snd (insertIntoFinalSheet quietEnv duplicateFile
      sampleAiData noInserts partialMoveWorld)) FinalSheet))" by (rule conjunct1)
  from t m have "fst (insertIntoFinalSheet quietEnv duplicateFile sampleAiData noInserts
        partialMoveWorld) = Inr (noInserts\<lparr>c_skipped := c_skipped noInserts + 1\<rparr>)
      \<and> snd (insertIntoFinalSheet quietEnv duplicateFile sampleAiData noInserts partialMoveWorld)
        = partialMoveWorld" by blast
  then have "insertIntoFinalSheet quietEnv duplicateFile sampleAiData noInserts partialMoveWorld =
     (Inr \<lparr> c_skipped = 1, c_inflowCount = 0, c_outflowCount = 0 \<rparr>, partialMoveWorld)"
    by (simp add: prod_eq_iff noInserts_def)
  with dd show ?thesis by blast
qed

section \<open>Column indices and cell writes\<close>

lemma indexOf_Cons:
  "indexOf (y # ys) x = (if y = x then 0 else if indexOf ys x < 0 then - 1 else indexOf ys x + 1)"
  by (simp add: Let_def)

lemma indexOf_bounds: "- 1 \<le> indexOf xs x \<and> indexOf xs x < int (length xs)"
proof (induction xs)
  case Nil
  then show ?case by simp
next
  case (Cons y ys)
  then show ?case unfolding indexOf_Cons by (cases "y = x") simp_all
qed

lemma indexOf_nth: "indexOf xs x \<noteq> - 1 \<Longrightarrow> xs ! nat (indexOf xs x) = x"
proof (induction xs)
  case Nil
  then show ?case by simp
next
  case (Cons y ys)
  show ?case
  proof (cases "y = x")
    case True
    then show ?thesis by simp
  next
    case False
    have ne: "indexOf ys x \<noteq> - 1"
    proof
      assume "indexOf ys x = - 1"
      with False have "indexOf (y # ys) x = - 1" unfolding indexOf_Cons by simp
      with Cons.prems show False by blast
    qed
    with indexOf_bounds [of ys x] have ge: "0 \<le> indexOf ys x" by linarith
    from False ge have eq: "indexOf (y # ys) x = indexOf ys x + 1"
      unfolding indexOf_Cons by simp
    from ge have n: "nat (indexOf ys x + 1) = Suc (nat (indexOf ys x))" by linarith
    have "(y # ys) ! nat (indexOf (y # ys) x) = (y # ys) ! Suc (nat (indexOf ys x))"
      by (simp only: eq n)
    also have "\<dots> = ys ! nat (indexOf ys x)" by (simp only: nth_Cons_Suc)
    also have "\<dots> = x" by (rule Cons.IH [OF ne])
    finally show ?thesis .
  qed
qed

lemma getColumnIndex_inj:
  assumes "getColumnIndex headers a \<noteq> - 1" and "getColumnIndex headers a = getColumnIndex headers b"
  shows "a = b"
proof -
  from assms(1) have na: "indexOf headers (CStr a) \<noteq> - 1"
    unfolding getColumnIndex_def .
  from assms have nb: "indexOf headers (CStr b) \<noteq> - 1"
    unfolding getColumnIndex_def by metis
  from assms(2) have eq: "indexOf headers (CStr a) = indexOf headers (CStr b)"
    unfolding getColumnIndex_def .
  have "CStr a = headers ! nat (indexOf headers (CStr a))"
    by (rule indexOf_nth [OF na, symmetric])
  also have "\<dots> = headers ! nat (indexOf headers (CStr b))" by (simp only: eq)
  also have "\<dots> = CStr b" by (rule indexOf_nth [OF nb])
  finally show ?thesis by (simp only: cell.inject)
qed

lemma getColumnIndex_nonneg:
  assumes "getColumnIndex headers a \<noteq> - 1"
  shows "0 \<le> getColumnIndex headers a"
proof -
  from indexOf_bounds [of headers "CStr a"] have "- 1 \<le> getColumnIndex headers a"
    unfolding getColumnIndex_def by (rule conjunct1)
  with assms show ?thesis by linarith
qed

text \<open>Writing a cell keeps the size of the sheet, its header row, the other rows and the
  other columns of the row.\<close>

lemma safeGetCellValue_nat:
  "safeGetCellValue row (int n) d = (if n < length row then row ! n else d)"
  by (simp add: safeGetCellValue_def)

lemma setCell_length: "r \<le> length g \<Longrightarrow> length (setCell g r c v) = length g"
  by (simp add: setCell_def padTo_def Let_def)

lemma setCell_hd:
  assumes "2 \<le> r" and "g \<noteq> []"
  shows "hd (setCell g r c v) = hd g"
proof -
  from assms(2) have p: "padTo r [] g \<noteq> []" "padTo r [] g ! 0 = g ! 0"
    by (simp_all add: padTo_def nth_append)
  from assms(1) have "r - 1 \<noteq> 0" by simp
  then have "setCell g r c v ! 0 = padTo r [] g ! 0"
    by (simp add: setCell_def Let_def)
  with p assms(2) show ?thesis
    by (simp add: hd_conv_nth setCell_def Let_def)
qed

lemma setCell_row:
  "1 \<le> r \<Longrightarrow> r \<le> length g \<Longrightarrow>
   setCell g r c v ! (r - 1) = (padTo c (CStr []) (g ! (r - 1)))[c - 1 := v]"
  by (simp add: setCell_def padTo_def Let_def)

lemma setCell_same_nat:
  assumes "1 \<le> r" and "r \<le> length g"
  shows "safeGetCellValue (setCell g r (Suc n) v ! (r - 1)) (int n) d = v"
proof -
  have "n < length (padTo (Suc n) (CStr []) (g ! (r - 1)))" by (simp add: padTo_def)
  then show ?thesis
    unfolding setCell_row [OF assms] safeGetCellValue_nat by simp
qed

lemma setCell_other_col_nat:
  assumes "1 \<le> r" and "r \<le> length g" and "n \<noteq> n'"
  shows "safeGetCellValue (setCell g r (Suc n') v ! (r - 1)) (int n) (CStr []) =
         safeGetCellValue (g ! (r - 1)) (int n) (CStr [])"
  unfolding setCell_row [OF assms(1,2)] safeGetCellValue_nat
  using assms(3) by (auto simp: padTo_def nth_append)

lemma setCell_same:
  assumes "1 \<le> r" and "r \<le> length g" and "0 \<le> c"
  shows "safeGetCellValue (setCell g r (nat c + 1) v ! (r - 1)) c d = v"
  using setCell_same_nat [OF assms(1,2), of "nat c" v d] assms(3) by simp

lemma setCell_other_col:
  assumes "1 \<le> r" and "r \<le> length g" and "0 \<le> c'" and "c \<noteq> c'"
  shows "safeGetCellValue (setCell g r (nat c' + 1) v ! (r - 1)) c (CStr []) =
         safeGetCellValue (g ! (r - 1)) c (CStr [])"
proof (cases "0 \<le> c")
  case True
  with assms(3,4) have "nat c \<noteq> nat c'" by simp
  from setCell_other_col_nat [OF assms(1,2) this, of v] True show ?thesis by simp
next
  case False
  then show ?thesis by (simp add: safeGetCellValue_def)
qed


section \<open>The reactivation of a row\<close>

text \<open>A sequence of steps that succeeds: every step succeeded.\<close>

lemma andThen_InrE:
  assumes "andThen m f = (Inr y, w')"
  obtains x w1 where "m = (Inr x, w1)" and "f x w1 = (Inr y, w')"
  using assms by (cases m; cases "fst m") (auto simp: andThen_def)

lemma getHeaders_Inr:
  "getHeaders e sid w = (Inr headers, w') \<Longrightarrow> w' = w \<and> sheets w sid \<noteq> [] \<and> headers = hd (sheets w sid)"
  by (auto simp: getHeaders_def split: if_splits list.splits)

lemma setIfColumn_Inr:
  assumes "setIfColumn e sid r idx v w = (Inr u, w')"
  shows "(idx = - 1 \<and> w' = w)
     \<or> (idx \<noteq> - 1 \<and> w' = w\<lparr>sheets := (sheets w)(sid := setCell (sheets w sid) r (nat idx + 1) v)\<rparr>)"
  using assms by (auto simp: setIfColumn_def setValue_def split: if_splits)

text \<open>What a successful guarded write keeps of the sheet.\<close>

lemma setIfColumn_keeps:
  assumes step: "setIfColumn e sid r idx v w = (Inr u, w')"
    and r: "2 \<le> r" "r \<le> length (sheets w sid)"
    and idx: "- 1 \<le> idx"
  shows "length (sheets w' sid) = length (sheets w sid)"
    and "hd (sheets w' sid) = hd (sheets w sid)"
    and "c \<noteq> idx \<Longrightarrow> safeGetCellValue (sheets w' sid ! (r - 1)) c (CStr []) =
           safeGetCellValue (sheets w sid ! (r - 1)) c (CStr [])"
    and "idx \<noteq> - 1 \<Longrightarrow> safeGetCellValue (sheets w' sid ! (r - 1)) idx d = v"
    and "sid' \<noteq> sid \<Longrightarrow> sheets w' sid' = sheets w sid'"
    and "driveFiles w' = driveFiles w" and "folders w' = folders w"
proof -
  from r have ne: "sheets w sid \<noteq> []" and r1: "1 \<le> r" by auto
  note cases = setIfColumn_Inr [OF step]
  from cases show "length (sheets w' sid) = length (sheets w sid)"
    using setCell_length [OF r(2)] by auto
  from cases show "hd (sheets w' sid) = hd (sheets w sid)"
    using setCell_hd [OF r(1) ne] by auto
  from cases show "sid' \<noteq> sid \<Longrightarrow> sheets w' sid' = sheets w sid'" by auto
  from cases show "driveFiles w' = driveFiles w" by auto
  from cases show "folders w' = folders w" by auto
  show "safeGetCellValue (sheets w' sid ! (r - 1)) c (CStr []) =
           safeGetCellValue (sheets w sid ! (r - 1)) c (CStr [])" if "c \<noteq> idx"
  proof (cases "idx = - 1")
    case True
    with cases show ?thesis by auto
  next
    case False
    with cases have w': "sheets w' sid = setCell (sheets w sid) r (nat idx + 1) v" by auto
    from idx False have "0 \<le> idx" by linarith
    from setCell_other_col [OF r1 r(2) this that] w' show ?thesis by simp
  qed
  show "safeGetCellValue (sheets w' sid ! (r - 1)) idx d = v" if "idx \<noteq> - 1"
  proof -
    from that cases have w': "sheets w' sid = setCell (sheets w sid) r (nat idx + 1) v" by auto
    from idx that have "0 \<le> idx" by linarith
    from setCell_same [OF r1 r(2) this] w' show ?thesis by simp
  qed
qed

lemma getColumnIndex_ge: "- 1 \<le> getColumnIndex headers a"
  using indexOf_bounds [of headers "CStr a"] unfolding getColumnIndex_def by (rule conjunct1)


lemma updateBufferSheetForReactivation_steps:
  assumes run: "updateBufferSheetForReactivation e r w = (Inr u, w')"
    and col: "getColumnIndex (hd (sheets w BufferSheet)) ''Reason'' \<noteq> - 1"
  obtains w2 w3 w4 prev where
    "sheets w BufferSheet \<noteq> []"
    "setIfColumn e BufferSheet r (getColumnIndex (hd (sheets w BufferSheet)) ''Status'')
       (CStr ''Active'') w = (Inr (), w2)"
    "setIfColumn e BufferSheet r (getColumnIndex (hd (sheets w BufferSheet)) ''Reason'')
       (CStr (''Reactivated on '' @ now e @ ''. Previous: '' @ prev)) w2 = (Inr (), w3)"
    "setIfColumn e BufferSheet r (getColumnIndex (hd (sheets w BufferSheet)) ''Processing Attempts'')
       (CStr ''0'') w3 = (Inr (), w4)"
    "setIfColumn e BufferSheet r (getColumnIndex (hd (sheets w BufferSheet)) ''Last Modified'')
       (CStr (now e)) w4 = (Inr (), w')"
proof -
  from run [unfolded updateBufferSheetForReactivation_def]
  obtain headers w1 where h: "getHeaders e BufferSheet w = (Inr headers, w1)"
    and r1: "andThen (setIfColumn e BufferSheet r (getColumnIndex headers ''Status'')
                (CStr ''Active'') w1) (\<lambda>u w2.
     andThen (if getColumnIndex headers ''Reason'' \<noteq> - 1 then
                andThen (getValue e BufferSheet r
                           (nat (getColumnIndex headers ''Reason'') + 1) w2) (\<lambda>currentReason w2a.
                  setValue e BufferSheet r (nat (getColumnIndex headers ''Reason'') + 1)
                    (CStr (''Reactivated on '' @ now e @ ''. Previous: ''
                            @ cellText e currentReason)) w2a)
              else (Inr (), w2)) (\<lambda>u w3.
     andThen (setIfColumn e BufferSheet r (getColumnIndex headers ''Processing Attempts'')
                (CStr ''0'') w3) (\<lambda>u w4.
     setIfColumn e BufferSheet r (getColumnIndex headers ''Last Modified'')
       (CStr (now e)) w4))) = (Inr u, w')"
    by (rule andThen_InrE)
  from getHeaders_Inr [OF h] have w1: "w1 = w" and ne: "sheets w BufferSheet \<noteq> []"
    and hd: "headers = hd (sheets w BufferSheet)" by simp_all
  from col hd have colh: "getColumnIndex headers ''Reason'' \<noteq> - 1" by simp
  from r1 obtain u2 w2 where s1: "setIfColumn e BufferSheet r (getColumnIndex headers ''Status'')
                (CStr ''Active'') w1 = (Inr u2, w2)"
    and r2: "andThen (if getColumnIndex headers ''Reason'' \<noteq> - 1 then
                andThen (getValue e BufferSheet r
                           (nat (getColumnIndex headers ''Reason'') + 1) w2) (\<lambda>currentReason w2a.
                  setValue e BufferSheet r (nat (getColumnIndex headers ''Reason'') + 1)
                    (CStr (''Reactivated on '' @ now e @ ''. Previous: ''
                            @ cellText e currentReason)) w2a)
              else (Inr (), w2)) (\<lambda>u w3.
     andThen (setIfColumn e BufferSheet r (getColumnIndex headers ''Processing Attempts'')
                (CStr ''0'') w3) (\<lambda>u w4.
     setIfColumn e BufferSheet r (getColumnIndex headers ''Last Modified'')
       (CStr (now e)) w4)) = (Inr u, w')"
    by (rule andThen_InrE)
  from r2 obtain u3 w3 where s2: "(if getColumnIndex headers ''Reason'' \<noteq> - 1 then
                andThen (getValue e BufferSheet r
                           (nat (getColumnIndex headers ''Reason'') + 1) w2) (\<lambda>currentReason w2a.
                  setValue e BufferSheet r (nat (getColumnIndex headers ''Reason'') + 1)
                    (CStr (''Reactivated on '' @ now e @ ''. Previous: ''
                            @ cellText e currentReason)) w2a)
              else (Inr (), w2)) = (Inr u3, w3)"
    and r3: "andThen (setIfColumn e BufferSheet r (getColumnIndex headers ''Processing Attempts'')
                (CStr ''0'') w3) (\<lambda>u w4.
     setIfColumn e BufferSheet r (getColumnIndex headers ''Last Modified'')
       (CStr (now e)) w4) = (Inr u, w')"
    by (rule andThen_InrE)
  from r3 obtain u4 w4 where s3: "setIfColumn e BufferSheet r
        (getColumnIndex headers ''Processing Attempts'') (CStr ''0'') w3 = (Inr u4, w4)"
    and s4: "setIfColumn e BufferSheet r (getColumnIndex headers ''Last Modified'')
       (CStr (now e)) w4 = (Inr u, w')"
    by (rule andThen_InrE)
  from s2 colh obtain cur w2a where gv: "getValue e BufferSheet r
        (nat (getColumnIndex headers ''Reason'') + 1) w2 = (Inr cur, w2a)"
    and sv: "setValue e BufferSheet r (nat (getColumnIndex headers ''Reason'') + 1)
        (CStr (''Reactivated on '' @ now e @ ''. Previous: '' @ cellText e cur)) w2a = (Inr u3, w3)"
    by (auto elim: andThen_InrE)
  from gv have "w2a = w2" by (auto simp: getValue_def split: if_splits)
  with sv colh have s2': "setIfColumn e BufferSheet r (getColumnIndex headers ''Reason'')
       (CStr (''Reactivated on '' @ now e @ ''. Previous: '' @ cellText e cur)) w2 = (Inr (), w3)"
    by (simp add: setIfColumn_def)
  show thesis
  proof (rule that [of w2 "cellText e cur" w3 w4, OF ne])
    show "setIfColumn e BufferSheet r (getColumnIndex (hd (sheets w BufferSheet)) ''Status'')
       (CStr ''Active'') w = (Inr (), w2)" using s1 w1 hd by simp
    show "setIfColumn e BufferSheet r (getColumnIndex (hd (sheets w BufferSheet)) ''Reason'')
       (CStr (''Reactivated on '' @ now e @ ''. Previous: '' @ cellText e cur)) w2 = (Inr (), w3)"
      using s2' hd by simp
    show "setIfColumn e BufferSheet r
       (getColumnIndex (hd (sheets w BufferSheet)) ''Processing Attempts'') (CStr ''0'') w3 =
       (Inr (), w4)" using s3 hd by simp
    show "setIfColumn e BufferSheet r (getColumnIndex (hd (sheets w BufferSheet)) ''Last Modified'')
       (CStr (now e)) w4 = (Inr (), w')" using s4 hd by simp
  qed
qed


lemma updateBufferSheetForReactivation_success:
  assumes run: "updateBufferSheetForReactivation e r w = (Inr u, w')"
    and r: "2 \<le> r" "r \<le> length (sheets w BufferSheet)"
    and col: "getColumnIndex (hd (sheets w BufferSheet)) ''Reason'' \<noteq> - 1"
  shows "length (sheets w' BufferSheet) = length (sheets w BufferSheet)"
    and "hd (sheets w' BufferSheet) = hd (sheets w BufferSheet)"
    and "\<exists>prev. safeGetCellValue (sheets w' BufferSheet ! (r - 1))
            (getColumnIndex (hd (sheets w BufferSheet)) ''Reason'') (CStr []) =
          CStr (''Reactivated on '' @ now e @ ''. Previous: '' @ prev)"
    and "sid \<noteq> BufferSheet \<Longrightarrow> sheets w' sid = sheets w sid"
    and "driveFiles w' = driveFiles w" and "folders w' = folders w"
proof -
  let ?h = "hd (sheets w BufferSheet)"
  from run col obtain w2 w3 w4 prev where
    ne: "sheets w BufferSheet \<noteq> []"
    and s1: "setIfColumn e BufferSheet r (getColumnIndex ?h ''Status'') (CStr ''Active'') w = (Inr (), w2)"
    and s2: "setIfColumn e BufferSheet r (getColumnIndex ?h ''Reason'')
       (CStr (''Reactivated on '' @ now e @ ''. Previous: '' @ prev)) w2 = (Inr (), w3)"
    and s3: "setIfColumn e BufferSheet r (getColumnIndex ?h ''Processing Attempts'')
       (CStr ''0'') w3 = (Inr (), w4)"
    and s4: "setIfColumn e BufferSheet r (getColumnIndex ?h ''Last Modified'')
       (CStr (now e)) w4 = (Inr (), w')"
    by (rule updateBufferSheetForReactivation_steps)
  note k1 = setIfColumn_keeps [OF s1 r getColumnIndex_ge]
  from k1(1) r have r2: "2 \<le> r" "r \<le> length (sheets w2 BufferSheet)" by simp_all
  note k2 = setIfColumn_keeps [OF s2 r2 getColumnIndex_ge]
  from k2(1) r2 have r3: "2 \<le> r" "r \<le> length (sheets w3 BufferSheet)" by simp_all
  note k3 = setIfColumn_keeps [OF s3 r3 getColumnIndex_ge]
  from k3(1) r3 have r4: "2 \<le> r" "r \<le> length (sheets w4 BufferSheet)" by simp_all
  note k4 = setIfColumn_keeps [OF s4 r4 getColumnIndex_ge]
  show "length (sheets w' BufferSheet) = length (sheets w BufferSheet)"
    using k1(1) k2(1) k3(1) k4(1) by simp
  show "hd (sheets w' BufferSheet) = hd (sheets w BufferSheet)"
    using k1(2) k2(2) k3(2) k4(2) by simp
  show "sid \<noteq> BufferSheet \<Longrightarrow> sheets w' sid = sheets w sid"
    using k1(5) k2(5) k3(5) k4(5) by simp
  show "driveFiles w' = driveFiles w" using k1(6) k2(6) k3(6) k4(6) by simp
  show "folders w' = folders w" using k1(7) k2(7) k3(7) k4(7) by simp
  have ne3: "getColumnIndex ?h ''Reason'' \<noteq> getColumnIndex ?h ''Processing Attempts''"
  proof
    assume "getColumnIndex ?h ''Reason'' = getColumnIndex ?h ''Processing Attempts''"
    from getColumnIndex_inj [OF col this] show False by simp
  qed
  have ne4: "getColumnIndex ?h ''Reason'' \<noteq> getColumnIndex ?h ''Last Modified''"
  proof
    assume "getColumnIndex ?h ''Reason'' = getColumnIndex ?h ''Last Modified''"
    from getColumnIndex_inj [OF col this] show False by simp
  qed
  have "safeGetCellValue (sheets w' BufferSheet ! (r - 1)) (getColumnIndex ?h ''Reason'') (CStr [])
      = safeGetCellValue (sheets w4 BufferSheet ! (r - 1)) (getColumnIndex ?h ''Reason'') (CStr [])"
    by (rule k4(3) [OF ne4])
  also have "\<dots> = safeGetCellValue (sheets w3 BufferSheet ! (r - 1))
      (getColumnIndex ?h ''Reason'') (CStr [])"
    by (rule k3(3) [OF ne3])
  also have "\<dots> = CStr (''Reactivated on '' @ now e @ ''. Previous: '' @ prev)"
    by (rule k2(4) [OF col])
  finally show "\<exists>prev. safeGetCellValue (sheets w' BufferSheet ! (r - 1))
            (getColumnIndex (hd (sheets w BufferSheet)) ''Reason'') (CStr []) =
          CStr (''Reactivated on '' @ now e @ ''. Previous: '' @ prev)" by blast
qed

lemma ensureFileInBufferFolder_sheets:
  "ensureFileInBufferFolder e item w = (r, w') \<Longrightarrow> sheets w' = sheets w"
  by (auto simp: ensureFileInBufferFolder_def getFileById_def removeFromNamedParent_def
      addFile_def removeFile_def andThen_def
      split: option.splits sum.splits if_splits prod.splits)

lemma restoreToFinalSheet_buffer:
  "restoreToFinalSheet e item w = (r, w') \<Longrightarrow> sheets w' BufferSheet = sheets w BufferSheet"
  by (auto simp: restoreToFinalSheet_def getSheet_def appendRow_def andThen_def split: if_splits)


lemma reactivationLoop_items:
  "reactivationLoop headers i rows = Inr items \<Longrightarrow> it \<in> set items \<Longrightarrow>
   \<exists>k < length rows. r_rowIndex it = i + k + 1
     \<and> (\<exists>s. safeGetCellValue (rows ! k) (getColumnIndex headers ''Reason'') (CStr []) = CStr s
            \<and> startsWith s ''Deleted:'')"
proof (induction rows arbitrary: i items)
  case Nil
  then show ?case by simp
next
  case (Cons row rows)
  let ?status = "safeGetCellValue row (getColumnIndex headers ''Status'') (CStr [])"
  let ?reason = "safeGetCellValue row (getColumnIndex headers ''Reason'') (CStr [])"
  show ?case
  proof (cases "?status = CStr ''Active''")
    case False
    with Cons.prems have "reactivationLoop headers (i + 1) rows = Inr items"
      by (simp add: Let_def)
    from Cons.IH [OF this Cons.prems(2)] obtain k where
      "k < length rows" "r_rowIndex it = i + 1 + k + 1"
      "\<exists>s. safeGetCellValue (rows ! k) (getColumnIndex headers ''Reason'') (CStr []) = CStr s
            \<and> startsWith s ''Deleted:''" by blast
    then show ?thesis by (intro exI [of _ "Suc k"]) simp
  next
    case True
    with Cons.prems(1) obtain b rest x where
      b: "cellStartsWith ?reason ''Deleted:'' = Inr b"
      and rest: "reactivationLoop headers (i + 1) rows = Inr rest"
      and items: "items = (if b then x # rest else rest)"
      and x: "r_rowIndex x = i + 1"
      by (auto simp: Let_def split: sum.splits)
    show ?thesis
    proof (cases "it \<in> set rest")
      case True
      from Cons.IH [OF rest True] obtain k where
        "k < length rows" "r_rowIndex it = i + 1 + k + 1"
        "\<exists>s. safeGetCellValue (rows ! k) (getColumnIndex headers ''Reason'') (CStr []) = CStr s
              \<and> startsWith s ''Deleted:''" by blast
      then show ?thesis by (intro exI [of _ "Suc k"]) simp
    next
      case False
      with Cons.prems(2) items x have yes: "b" and it: "r_rowIndex it = i + 1"
        by (auto split: if_splits)
      from b yes obtain s where "?reason = CStr s" "startsWith s ''Deleted:''"
        by (auto simp: cellStartsWith_def split: cell.splits)
      with it show ?thesis by (intro exI [of _ 0]) simp
    qed
  qed
qed

lemma getFilesMarkedForReactivation_items:
  assumes "it \<in> set (getFilesMarkedForReactivation e w)"
  shows "2 \<le> r_rowIndex it \<and> r_rowIndex it \<le> length (sheets w BufferSheet)
    \<and> (\<exists>s. sheetCell (sheets w BufferSheet) (r_rowIndex it) ''Reason'' = CStr s
           \<and> startsWith s ''Deleted:'')"
proof -
  from assms have nonempty: "getFilesMarkedForReactivation e w \<noteq> []" by auto
  then obtain headers rows where g: "sheets w BufferSheet = headers # rows"
    and loop: "reactivationLoop headers 1 rows = Inr (getFilesMarkedForReactivation e w)"
    by (auto simp: getFilesMarkedForReactivation_def getFilesMarkedForReactivation_try_def
        getLastRow_def getValues_def split: sum.splits if_splits list.splits)
  from reactivationLoop_items [OF loop assms] obtain k s where
    k: "k < length rows" "r_rowIndex it = 1 + k + 1"
    and s: "safeGetCellValue (rows ! k) (getColumnIndex headers ''Reason'') (CStr []) = CStr s"
      "startsWith s ''Deleted:''" by blast
  from k g have "sheets w BufferSheet ! (r_rowIndex it - 1) = rows ! k" by simp
  with s g have "sheetCell (sheets w BufferSheet) (r_rowIndex it) ''Reason'' = CStr s"
    by (simp add: sheetCell_def)
  with k g s(2) show ?thesis by auto
qed

lemma reason_without_prefix_not_reactivated:
  assumes "sheetCell (sheets w BufferSheet) r ''Reason'' = CStr s"
    and "\<not> startsWith s ''Deleted:''"
  shows "\<forall>it \<in> set (getFilesMarkedForReactivation e w). r_rowIndex it \<noteq> r"
proof
  fix it
  assume "it \<in> set (getFilesMarkedForReactivation e w)"
  from getFilesMarkedForReactivation_items [OF this] assms show "r_rowIndex it \<noteq> r" by auto
qed

lemma processBufferChanges_nothing_pending:
  assumes "getFilesMarkedForDeletion e w = []" and "getFilesMarkedForReactivation e w = []"
  shows "snd (processBufferChanges e clientName w) = w"
  using assms
  by (simp add: processBufferChanges_def getSheet_def andThen_def Let_def)


text \<open>
  Claim C4: when \<^verbatim>\<open>processFileReactivation\<close> has succeeded for an item that the detection
  returned, the Reason cell of the item's row starts with \<^verbatim>\<open>Reactivated on\<close>, so the
  row is no longer among the items of \<^verbatim>\<open>getFilesMarkedForReactivation\<close>, in any later
  pass and whatever the service does then; and a pass of \<^verbatim>\<open>processBufferChanges\<close> that
  finds nothing pending leaves every sheet and folder as it is (it appends no row to the
  Final sheet).
\<close>

theorem reactivation_not_detected_again:
  assumes detected: "item \<in> set (getFilesMarkedForReactivation e w)"
    and effect: "processFileReactivation e item w = (Inr (), w')"
  shows "(\<exists>t. sheetCell (sheets w' BufferSheet) (r_rowIndex item) ''Reason'' =
              CStr (''Reactivated on '' @ t))
    \<and> (\<forall>it \<in> set (getFilesMarkedForReactivation e' w'). r_rowIndex it \<noteq> r_rowIndex item)
    \<and> (getFilesMarkedForDeletion e' w' = [] \<and> getFilesMarkedForReactivation e' w' = [] \<longrightarrow>
          snd (processBufferChanges e' clientName w') = w')"
proof -
  let ?r = "r_rowIndex item"
  let ?h = "hd (sheets w BufferSheet)"
  from getFilesMarkedForReactivation_items [OF detected] obtain s where
    r: "2 \<le> ?r" "?r \<le> length (sheets w BufferSheet)"
    and s: "sheetCell (sheets w BufferSheet) ?r ''Reason'' = CStr s" "startsWith s ''Deleted:''"
    by blast
  have col: "getColumnIndex ?h ''Reason'' \<noteq> - 1"
  proof
    assume "getColumnIndex ?h ''Reason'' = - 1"
    with s(1) have "s = []" by (simp add: sheetCell_def safeGetCellValue_def)
    with s(2) show False by (simp add: startsWith_def)
  qed
  from effect obtain w1 w2 where
    en: "ensureFileInBufferFolder e item w = (Inr (), w1)"
    and up: "updateBufferSheetForReactivation e ?r w1 = (Inr (), w2)"
    and fin: "w' = w2 \<or> restoreToFinalSheet e item w2 = (Inr (), w')"
    by (auto simp: processFileReactivation_def split: if_splits elim!: andThen_InrE)
  from ensureFileInBufferFolder_sheets [OF en] have w1: "sheets w1 = sheets w" .
  note u = updateBufferSheetForReactivation_success [OF up, unfolded w1, OF r col]
  from fin restoreToFinalSheet_buffer have b: "sheets w' BufferSheet = sheets w2 BufferSheet"
    by auto
  from u(3) obtain prev where "safeGetCellValue (sheets w2 BufferSheet ! (?r - 1))
      (getColumnIndex ?h ''Reason'') (CStr []) =
      CStr (''Reactivated on '' @ now e @ ''. Previous: '' @ prev)" by blast
  with u(2) b have cell: "sheetCell (sheets w' BufferSheet) ?r ''Reason'' =
      CStr (''Reactivated on '' @ (now e @ ''. Previous: '' @ prev))"
    by (simp add: sheetCell_def)
  have np: "\<not> startsWith (''Reactivated on '' @ (now e @ ''. Previous: '' @ prev)) ''Deleted:''"
    by (simp add: startsWith_def)
  from reason_without_prefix_not_reactivated [OF cell np]
  have excl: "\<forall>it \<in> set (getFilesMarkedForReactivation e' w'). r_rowIndex it \<noteq> ?r" .
  from cell have first: "\<exists>t. sheetCell (sheets w' BufferSheet) ?r ''Reason'' =
      CStr (''Reactivated on '' @ t)" by (rule exI)
  from first excl processBufferChanges_nothing_pending [of e' w' clientName]
  show ?thesis by (intro conjI impI) (assumption | elim conjE)+
qed



text \<open>When no service call fails, the file of the item exists in Drive and the Buffer sheet
  has a header row, the reactivation succeeds.\<close>

lemma andThen_fst_Inr:
  "fst m = Inr x \<Longrightarrow> andThen m f = f x (snd m)"
  by (cases m) (simp add: andThen_def)

lemma setIfColumn_quiet:
  "\<forall>c. \<not> faulty e (SetValue sid r c) \<Longrightarrow> fst (setIfColumn e sid r idx v w) = Inr ()"
  by (simp add: setIfColumn_def setValue_def)

lemma updateBufferSheetForReactivation_quiet:
  assumes "\<forall>c. \<not> faulty e c" and "sheets w BufferSheet \<noteq> []"
  shows "fst (updateBufferSheetForReactivation e r w) = Inr ()"
proof -
  from assms obtain headers rows where g: "sheets w BufferSheet = headers # rows"
    by (cases "sheets w BufferSheet") auto
  with assms(1) have h: "getHeaders e BufferSheet w = (Inr headers, w)"
    by (simp add: getHeaders_def)
  from assms(1) have q: "\<And>sid r c. \<not> faulty e (SetValue sid r c)"
    "\<And>sid r c. \<not> faulty e (GetValue sid r c)"
    by simp_all
  show ?thesis
    unfolding updateBufferSheetForReactivation_def h
    by (simp add: andThen_fst_Inr setIfColumn_quiet q getValue_def setValue_def)
qed

lemma updateBufferSheetForReactivation_nonempty:
  "sheets w BufferSheet \<noteq> [] \<Longrightarrow> sheets (snd (ensureFileInBufferFolder e item w)) BufferSheet \<noteq> []"
  using ensureFileInBufferFolder_sheets [OF prod.collapse [symmetric], of e item w] by simp

lemma ensureFileInBufferFolder_quiet:
  assumes "\<forall>c. \<not> faulty e c" and "extractFileIdFromUrl (r_fileUrl item) = Some fid"
    and "map_of (driveFiles w) fid = Some name"
  shows "fst (ensureFileInBufferFolder e item w) = Inr ()"
  using assms
  by (simp add: ensureFileInBufferFolder_def getFileById_def addFile_def removeFile_def
      removeFromNamedParent_def andThen_def)

lemma restoreToFinalSheet_quiet:
  "\<forall>c. \<not> faulty e c \<Longrightarrow> fst (restoreToFinalSheet e item w) = Inr ()"
  by (simp add: restoreToFinalSheet_def getSheet_def appendRow_def andThen_def)

lemma processFileReactivation_quiet:
  assumes q: "\<forall>c. \<not> faulty e c" and url: "extractFileIdFromUrl (r_fileUrl item) = Some fid"
    and known: "map_of (driveFiles w) fid = Some name"
    and ne: "sheets w BufferSheet \<noteq> []"
  shows "fst (processFileReactivation e item w) = Inr ()"
proof -
  note a = ensureFileInBufferFolder_quiet [OF q url known]
  note b = updateBufferSheetForReactivation_quiet
    [OF q updateBufferSheetForReactivation_nonempty [OF ne, of e item], of "r_rowIndex item"]
  from q have "\<not> faulty e GetFolderStructure" by simp
  then show ?thesis
    unfolding processFileReactivation_def
    by (simp add: andThen_fst_Inr [OF a] andThen_fst_Inr [OF b] restoreToFinalSheet_quiet [OF q])
qed


theorem reactivation_not_detected_again_witness:
  "fst (processFileReactivation quietEnv reactivatedItem reactivationWorld) = Inr ()
   \<and> 2 \<notin> r_rowIndex ` set (getFilesMarkedForReactivation quietEnv
        (snd (processFileReactivation quietEnv reactivatedItem reactivationWorld)))"
proof -
  let ?w' = "snd (processFileReactivation quietEnv reactivatedItem reactivationWorld)"
  have d: "reactivatedItem \<in> set (getFilesMarkedForReactivation quietEnv reactivationWorld)"
    by code_simp
  have q: "\<forall>c. \<not> faulty quietEnv c" by (simp add: quietEnv_def)
  have url: "extractFileIdFromUrl (r_fileUrl reactivatedItem) = Some ''fileA''" by code_simp
  have known: "map_of (driveFiles reactivationWorld) ''fileA'' = Some ''scan0001.pdf''"
    by (simp add: reactivationWorld_def)
  have ne: "sheets reactivationWorld BufferSheet \<noteq> []" by (simp add: reactivationWorld_def)
  have f: "fst (processFileReactivation quietEnv reactivatedItem reactivationWorld) = Inr ()"
    by (rule processFileReactivation_quiet [OF q url known ne])
  from f have eff: "processFileReactivation quietEnv reactivatedItem reactivationWorld =
      (Inr (), ?w')" by (simp add: prod_eq_iff)
  have two: "r_rowIndex reactivatedItem = 2" by (simp add: reactivatedItem_def)
  note t = reactivation_not_detected_again [OF d eff, of quietEnv "''acme''"]
  from t have "\<forall>it \<in> set (getFilesMarkedForReactivation quietEnv ?w').
      r_rowIndex it \<noteq> r_rowIndex reactivatedItem"
    by (rule conjunct2 [THEN conjunct1])
  then have "2 \<notin> r_rowIndex ` set (getFilesMarkedForReactivation quietEnv ?w')"
    unfolding two by auto
  with f show ?thesis by (rule conjI)
qed

section \<open>The deletion of a row\<close>

lemma andThen_fst_Inl:
  "fst m = Inl err \<Longrightarrow> andThen m f = (Inl err, snd m)"
  by (cases m) (simp add: andThen_def)

lemma removeFromCategoryFolder_frame:
  "sheets (snd (removeFromCategoryFolder e fid name f w)) = sheets w"
  "driveFiles (snd (removeFromCategoryFolder e fid name f w)) = driveFiles w"
  "f' \<noteq> f \<Longrightarrow> folders (snd (removeFromCategoryFolder e fid name f w)) f' = folders w f'"
  by (simp_all add: removeFromCategoryFolder_def removeFromCategoryFolder_try_def
      getFolderName_def removeFile_def Let_def)

lemma removeFromCategoryFolder_folder:
  assumes "map_of (driveFiles w) fid = Some name"
  shows "folders (snd (removeFromCategoryFolder e fid name f w)) f =
     (if faulty e (ListFolder f) \<or> faulty e (RemoveFile f fid) then folders w f
      else removeAll fid (folders w f))"
  using assms
  by (simp add: removeFromCategoryFolder_def removeFromCategoryFolder_try_def
      getFolderName_def removeFile_def Let_def)

lemma removeFromCategoryFolder_removed:
  assumes "map_of (driveFiles w) fid = Some name"
    and "fid \<in> set (folders (snd (removeFromCategoryFolder e fid name f w)) f)"
  shows "faulty e (ListFolder f) \<or> faulty e (RemoveFile f fid)"
  using assms(2) unfolding removeFromCategoryFolder_folder [OF assms(1)]
  by (simp split: if_splits)

lemma removeFromCategoryFolder_result:
  "fst (removeFromCategoryFolder e fid name f w) = Inr ()
   \<or> fst (removeFromCategoryFolder e fid name f w) = Inl (ServiceError (GetFolderName f))"
  by (simp add: removeFromCategoryFolder_def removeFromCategoryFolder_try_def
      getFolderName_def removeFile_def Let_def)

lemma removeFromCategoryFolder_quiet:
  "\<not> faulty e (GetFolderName f) \<Longrightarrow> fst (removeFromCategoryFolder e fid name f w) = Inr ()"
  by (simp add: removeFromCategoryFolder_def removeFromCategoryFolder_try_def
      getFolderName_def removeFile_def Let_def)

text \<open>The ways through \<^verbatim>\<open>removeFileFromDriveFolders\<close>.\<close>

lemma removeFileFromDriveFolders_cases:
  assumes "removeFileFromDriveFolders e url w = (r, w')"
  obtains (invalid) "extractFileIdFromUrl url = None" "r = Inl INVALID_INPUT" "w' = w"
  | (unknown) fid where "extractFileIdFromUrl url = Some fid"
      "faulty e (GetFileById fid) \<or> map_of (driveFiles w) fid = None"
      "r = Inl (ServiceError (GetFileById fid))" "w' = w"
  | (inflow) fid name err where "extractFileIdFromUrl url = Some fid"
      "map_of (driveFiles w) fid = Some name"
      "removeFromCategoryFolder e fid name InflowFolder w = (Inl err, w')" "r = Inl err"
  | (outflow) fid name w1 where "extractFileIdFromUrl url = Some fid"
      "map_of (driveFiles w) fid = Some name"
      "removeFromCategoryFolder e fid name InflowFolder w = (Inr (), w1)"
      "removeFromCategoryFolder e fid name OutflowFolder w1 = (r, w')"
proof (cases "extractFileIdFromUrl url")
  case None
  with assms have "r = Inl INVALID_INPUT" "w' = w"
    by (simp_all add: removeFileFromDriveFolders_def)
  with None show thesis by (rule invalid)
next
  case (Some fid)
  show thesis
  proof (cases "faulty e (GetFileById fid) \<or> map_of (driveFiles w) fid = None")
    case True
    then have "getFileById e fid w = (Inl (ServiceError (GetFileById fid)), w)"
      by (auto simp: getFileById_def)
    with assms Some have "r = Inl (ServiceError (GetFileById fid))" "w' = w"
      by (simp_all add: removeFileFromDriveFolders_def)
    with Some True show thesis by (rule unknown)
  next
    case False
    then obtain name where name: "map_of (driveFiles w) fid = Some name" by auto
    with False have g: "getFileById e fid w = (Inr name, w)" by (simp add: getFileById_def)
    obtain r1 w1 where s1: "removeFromCategoryFolder e fid name InflowFolder w = (r1, w1)"
      by (cases "removeFromCategoryFolder e fid name InflowFolder w")
    show thesis
    proof (cases r1)
      case (Inl err)
      with assms Some g s1 have "r = Inl err" "w' = w1"
        by (simp_all add: removeFileFromDriveFolders_def)
      with Some name s1 Inl show thesis by (intro inflow [of fid name err]) simp_all
    next
      case (Inr u)
      with assms Some g s1
      have "removeFromCategoryFolder e fid name OutflowFolder w1 = (r, w')"
        by (simp add: removeFileFromDriveFolders_def)
      with Some name s1 Inr show thesis by (intro outflow [of fid name w1]) simp_all
    qed
  qed
qed

lemma removeFileFromDriveFolders_sheets:
  assumes "removeFileFromDriveFolders e url w = (r, w')"
  shows "sheets w' = sheets w"
  using assms
proof (cases rule: removeFileFromDriveFolders_cases)
  case (inflow fid name err)
  with removeFromCategoryFolder_frame(1) [of e fid name InflowFolder w] show ?thesis by simp
next
  case (outflow fid name w1)
  with removeFromCategoryFolder_frame(1) [of e fid name InflowFolder w]
    removeFromCategoryFolder_frame(1) [of e fid name OutflowFolder w1]
  show ?thesis by simp
qed simp_all

lemma removeFileFromDriveFolders_Inr:
  assumes "removeFileFromDriveFolders e url w = (Inr u, w')"
  obtains fid where "extractFileIdFromUrl url = Some fid"
    and "fid \<in> set (folders w' InflowFolder) \<longrightarrow>
           faulty e (ListFolder InflowFolder) \<or> faulty e (RemoveFile InflowFolder fid)"
    and "fid \<in> set (folders w' OutflowFolder) \<longrightarrow>
           faulty e (ListFolder OutflowFolder) \<or> faulty e (RemoveFile OutflowFolder fid)"
  using assms
proof (cases rule: removeFileFromDriveFolders_cases)
  case (outflow fid name w1)
  from outflow(3) have w1: "w1 = snd (removeFromCategoryFolder e fid name InflowFolder w)"
    by simp
  from outflow(4) have w': "w' = snd (removeFromCategoryFolder e fid name OutflowFolder w1)"
    by simp
  have known1: "map_of (driveFiles w1) fid = Some name"
    unfolding w1 using outflow(2) by (simp add: removeFromCategoryFolder_frame)
  have inflow: "folders w' InflowFolder = folders w1 InflowFolder"
    unfolding w' by (simp add: removeFromCategoryFolder_frame)
  show thesis
  proof (rule that [OF outflow(1)])
    show "fid \<in> set (folders w' InflowFolder) \<longrightarrow>
           faulty e (ListFolder InflowFolder) \<or> faulty e (RemoveFile InflowFolder fid)"
    proof
      assume "fid \<in> set (folders w' InflowFolder)"
      with inflow have "fid \<in> set (folders (snd (removeFromCategoryFolder e fid name
          InflowFolder w)) InflowFolder)" unfolding w1 by simp
      from removeFromCategoryFolder_removed [OF outflow(2) this]
      show "faulty e (ListFolder InflowFolder) \<or> faulty e (RemoveFile InflowFolder fid)" .
    qed
    show "fid \<in> set (folders w' OutflowFolder) \<longrightarrow>
           faulty e (ListFolder OutflowFolder) \<or> faulty e (RemoveFile OutflowFolder fid)"
    proof
      assume "fid \<in> set (folders w' OutflowFolder)"
      then have "fid \<in> set (folders (snd (removeFromCategoryFolder e fid name OutflowFolder w1))
          OutflowFolder)" unfolding w' .
      from removeFromCategoryFolder_removed [OF known1 this]
      show "faulty e (ListFolder OutflowFolder) \<or> faulty e (RemoveFile OutflowFolder fid)" .
    qed
  qed
qed simp_all

text \<open>The loop of \<^verbatim>\<open>removeFromSheet\<close>: what it leaves alone, and what it leaves of the
  sheet when it has run through.\<close>

lemma deleteRow_frame:
  "deleteRow e sid r w = (res, w') \<Longrightarrow>
   folders w' = folders w \<and> driveFiles w' = driveFiles w
   \<and> (\<forall>sid'. sid' \<noteq> sid \<longrightarrow> sheets w' sid' = sheets w sid')"
  by (auto simp: deleteRow_def split: if_splits)

lemma removeLoop_frame:
  "removeLoop e sid data col v i cnt w = (res, w') \<Longrightarrow>
   folders w' = folders w \<and> driveFiles w' = driveFiles w
   \<and> (\<forall>sid'. sid' \<noteq> sid \<longrightarrow> sheets w' sid' = sheets w sid')"
proof (induction i arbitrary: cnt w)
  case 0
  then show ?case by simp
next
  case (Suc i)
  show ?case
  proof (cases "safeGetCellValue (data ! Suc i) col (CStr []) = v")
    case False
    with Suc.prems have "removeLoop e sid data col v i cnt w = (res, w')" by simp
    from Suc.IH [OF this] show ?thesis .
  next
    case True
    obtain r1 w1 where d: "deleteRow e sid (Suc i + 1) w = (r1, w1)"
      by (cases "deleteRow e sid (Suc i + 1) w")
    note f1 = deleteRow_frame [OF d]
    show ?thesis
    proof (cases r1)
      case (Inl err)
      with True d Suc.prems have "w' = w1" by simp
      with f1 show ?thesis by simp
    next
      case (Inr u)
      with True d Suc.prems have "removeLoop e sid data col v i (cnt + 1) w1 = (res, w')"
        by simp
      from Suc.IH [OF this] f1 show ?thesis by simp
    qed
  qed
qed


lemma take_Suc_of_take:
  assumes "take (Suc (Suc i)) g = take (Suc (Suc i)) data"
  shows "take (Suc i) g = take (Suc i) data"
proof -
  have "take (Suc i) g = take (Suc i) (take (Suc (Suc i)) g)" by simp
  also have "\<dots> = take (Suc i) (take (Suc (Suc i)) data)" by (simp only: assms)
  also have "\<dots> = take (Suc i) data" by simp
  finally show ?thesis .
qed

lemma nth_of_take:
  assumes "take (Suc (Suc i)) g = take (Suc (Suc i)) data" and "Suc i < length data"
  shows "Suc i < length g" and "g ! Suc i = data ! Suc i"
proof -
  from assms(1) have "length (take (Suc (Suc i)) g) = length (take (Suc (Suc i)) data)" by simp
  with assms(2) show len: "Suc i < length g" by simp
  have "g ! Suc i = take (Suc (Suc i)) g ! Suc i" by simp
  also have "\<dots> = take (Suc (Suc i)) data ! Suc i" by (simp only: assms(1))
  also have "\<dots> = data ! Suc i" by simp
  finally show "g ! Suc i = data ! Suc i" .
qed

lemma removeLoop_result:
  assumes "removeLoop e sid data col v i cnt w = (Inr n, w')"
    and "i < length data"
    and "take (Suc i) (sheets w sid) = take (Suc i) data"
    and "\<forall>row \<in> set (drop (Suc i) (sheets w sid)). safeGetCellValue row col (CStr []) \<noteq> v"
  shows "take 1 (sheets w' sid) = take 1 data
    \<and> (\<forall>row \<in> set (drop 1 (sheets w' sid)). safeGetCellValue row col (CStr []) \<noteq> v)"
  using assms
proof (induction i arbitrary: cnt w)
  case 0
  then show ?case by simp
next
  case (Suc i)
  let ?g = "sheets w sid"
  note inv = Suc.prems(3)
  from nth_of_take [OF inv Suc.prems(2)] have len: "Suc i < length ?g"
    and nth: "?g ! Suc i = data ! Suc i" by simp_all
  from Suc.prems(2) have i: "i < length data" by simp
  note tk = take_Suc_of_take [OF inv]
  show ?case
  proof (cases "safeGetCellValue (data ! Suc i) col (CStr []) = v")
    case False
    with Suc.prems(1) have run: "removeLoop e sid data col v i cnt w = (Inr n, w')" by simp
    from len have "drop (Suc i) ?g = ?g ! Suc i # drop (Suc (Suc i)) ?g"
      by (simp add: Cons_nth_drop_Suc)
    with Suc.prems(4) False nth
    have rest: "\<forall>row \<in> set (drop (Suc i) ?g). safeGetCellValue row col (CStr []) \<noteq> v" by simp
    from Suc.IH [OF run i tk rest] show ?thesis .
  next
    case True
    obtain r1 w1 where d: "deleteRow e sid (Suc i + 1) w = (r1, w1)"
      by (cases "deleteRow e sid (Suc i + 1) w")
    from True d Suc.prems(1) obtain u where r1: "r1 = Inr u"
      and run: "removeLoop e sid data col v i (cnt + 1) w1 = (Inr n, w')"
      by (cases r1) simp_all
    from d r1 have g1: "sheets w1 sid = take (Suc i) ?g @ drop (Suc (Suc i)) ?g"
      by (auto simp: deleteRow_def deleteRowAt_def split: if_splits)
    from len have lt: "length (take (Suc i) ?g) = Suc i" by simp
    have tk1: "take (Suc i) (sheets w1 sid) = take (Suc i) data"
      unfolding g1 using lt tk by simp
    have "drop (Suc i) (sheets w1 sid) = drop (Suc (Suc i)) ?g"
      unfolding g1 using lt by simp
    with Suc.prems(4)
    have rest: "\<forall>row \<in> set (drop (Suc i) (sheets w1 sid)).
        safeGetCellValue row col (CStr []) \<noteq> v" by simp
    from Suc.IH [OF run i tk1 rest] show ?thesis .
  qed
qed

lemma removeFromSheet_frame:
  assumes "removeFromSheet e sid v columnHeader w = (res, w')"
  shows "folders w' = folders w \<and> driveFiles w' = driveFiles w
   \<and> (\<forall>sid'. sid' \<noteq> sid \<longrightarrow> sheets w' sid' = sheets w sid')"
proof -
  have "w' = w \<or> (\<exists>data col i cnt. removeLoop e sid data col v i cnt w = (res, w'))"
    using assms
    by (auto simp: removeFromSheet_def getLastRow_def getValues_def andThen_def Let_def
        split: if_splits list.splits)
  with removeLoop_frame show ?thesis by blast
qed

lemma removeFromSheet_result:
  assumes run: "removeFromSheet e sid v ''File URL'' w = (Inr n, w')" and v: "v \<noteq> CStr []"
  shows "v \<notin> set (fileUrls (sheets w' sid))"
proof -
  let ?g = "sheets w sid"
  let ?col = "getColumnIndex (hd ?g) ''File URL''"
  have cases: "(w' = w \<and> (length ?g \<le> 1 \<or> ?col = - 1))
     \<or> (1 < length ?g \<and> removeLoop e sid ?g ?col v (length ?g - 1) 0 w = (Inr n, w'))"
    using run
    by (auto simp: removeFromSheet_def getLastRow_def getValues_def andThen_def Let_def
        split: if_splits list.splits)
  then show ?thesis
  proof (elim disjE conjE)
    assume "w' = w" and "length ?g \<le> 1"
    then have "tl (sheets w' sid) = []" by (cases ?g) auto
    then show ?thesis by (simp add: fileUrls_def)
  next
    assume "w' = w" and "?col = - 1"
    with v show ?thesis by (auto simp: fileUrls_def safeGetCellValue_def)
  next
    assume len: "1 < length ?g"
      and loop: "removeLoop e sid ?g ?col v (length ?g - 1) 0 w = (Inr n, w')"
    from len have i: "length ?g - 1 < length ?g" by simp
    from len have tk: "take (Suc (length ?g - 1)) ?g = take (Suc (length ?g - 1)) ?g" by simp
    from len have rest: "\<forall>row \<in> set (drop (Suc (length ?g - 1)) ?g).
        safeGetCellValue row ?col (CStr []) \<noteq> v" by simp
    from removeLoop_result [OF loop i tk rest]
    have one: "take 1 (sheets w' sid) = take 1 ?g"
      and gone: "\<forall>row \<in> set (drop 1 (sheets w' sid)). safeGetCellValue row ?col (CStr []) \<noteq> v"
      by simp_all
    from len one have "hd (sheets w' sid) = hd ?g"
      by (cases ?g; cases "sheets w' sid") auto
    with gone show ?thesis by (auto simp: fileUrls_def drop_Suc)
  qed
qed


lemma setIfColumn_frame:
  "setIfColumn e sid r idx v w = (res, w') \<Longrightarrow>
   folders w' = folders w \<and> driveFiles w' = driveFiles w
   \<and> (\<forall>sid'. sid' \<noteq> sid \<longrightarrow> sheets w' sid' = sheets w sid')"
  by (auto simp: setIfColumn_def setValue_def split: if_splits)

lemma andThen_frame:
  assumes m: "\<And>res w'. m = (res, w') \<Longrightarrow> P w w'"
    and f: "\<And>x w1 res w'. f x w1 = (res, w') \<Longrightarrow> P w1 w'"
    and trans: "\<And>a b c. P a b \<Longrightarrow> P b c \<Longrightarrow> P a c"
    and run: "andThen m f = (res, w')"
  shows "P w w'"
proof (cases m)
  case (Pair r1 w1)
  note p1 = m [OF Pair]
  show ?thesis
  proof (cases r1)
    case (Inl err)
    with Pair run have "w' = w1" by simp
    with p1 show ?thesis by simp
  next
    case (Inr x)
    with Pair run have "f x w1 = (res, w')" by simp
    from trans [OF p1 f [OF this]] show ?thesis .
  qed
qed

lemma onlyBufferSheet_trans:
  "onlyBufferSheet a b \<Longrightarrow> onlyBufferSheet b c \<Longrightarrow> onlyBufferSheet a c"
  by (simp add: onlyBufferSheet_def)

lemma setIfColumn_onlyBufferSheet:
  "setIfColumn e BufferSheet r idx v w = (res, w') \<Longrightarrow> onlyBufferSheet w w'"
  using setIfColumn_frame [of e BufferSheet r idx v w res w'] by (simp add: onlyBufferSheet_def)

lemma getHeaders_onlyBufferSheet:
  "getHeaders e BufferSheet w = (res, w') \<Longrightarrow> onlyBufferSheet w w'"
  by (auto simp: getHeaders_def onlyBufferSheet_def split: if_splits list.splits)

lemma updateBufferSheetForDeletion_frame:
  assumes "updateBufferSheetForDeletion e r reason w = (res, w')"
  shows "onlyBufferSheet w w'"
  using assms unfolding updateBufferSheetForDeletion_def
  by (rule andThen_frame [where P = onlyBufferSheet, rotated 3])
     (erule getHeaders_onlyBufferSheet
      | erule setIfColumn_onlyBufferSheet
      | erule andThen_frame [where P = onlyBufferSheet, rotated 3]
      | erule (1) onlyBufferSheet_trans)+


lemma updateBufferSheetForDeletion_steps:
  assumes run: "updateBufferSheetForDeletion e r reason w = (Inr u, w')"
  obtains w2 w3 where
    "sheets w BufferSheet \<noteq> []"
    "setIfColumn e BufferSheet r (getColumnIndex (hd (sheets w BufferSheet)) ''Status'')
       (CStr ''Deleted'') w = (Inr (), w2)"
    "setIfColumn e BufferSheet r (getColumnIndex (hd (sheets w BufferSheet)) ''Reason'')
       (CStr (''Deleted: '' @ cellText e reason @ '' ('' @ now e @ '')'')) w2 = (Inr (), w3)"
    "setIfColumn e BufferSheet r (getColumnIndex (hd (sheets w BufferSheet)) ''Last Modified'')
       (CStr (now e)) w3 = (Inr (), w')"
proof -
  from run [unfolded updateBufferSheetForDeletion_def]
  obtain headers w1 where h: "getHeaders e BufferSheet w = (Inr headers, w1)"
    and r1: "andThen (setIfColumn e BufferSheet r (getColumnIndex headers ''Status'')
                (CStr ''Deleted'') w1) (\<lambda>u w2.
     andThen (setIfColumn e BufferSheet r (getColumnIndex headers ''Reason'')
                (CStr (''Deleted: '' @ cellText e reason @ '' ('' @ now e @ '')'')) w2) (\<lambda>u w3.
     setIfColumn e BufferSheet r (getColumnIndex headers ''Last Modified'')
       (CStr (now e)) w3)) = (Inr u, w')"
    by (rule andThen_InrE)
  from getHeaders_Inr [OF h] have w1: "w1 = w" and ne: "sheets w BufferSheet \<noteq> []"
    and hd: "headers = hd (sheets w BufferSheet)" by simp_all
  from r1 obtain u2 w2 where s1: "setIfColumn e BufferSheet r (getColumnIndex headers ''Status'')
                (CStr ''Deleted'') w1 = (Inr u2, w2)"
    and r2: "andThen (setIfColumn e BufferSheet r (getColumnIndex headers ''Reason'')
                (CStr (''Deleted: '' @ cellText e reason @ '' ('' @ now e @ '')'')) w2) (\<lambda>u w3.
     setIfColumn e BufferSheet r (getColumnIndex headers ''Last Modified'')
       (CStr (now e)) w3) = (Inr u, w')"
    by (rule andThen_InrE)
  from r2 obtain u3 w3 where s2: "setIfColumn e BufferSheet r (getColumnIndex headers ''Reason'')
                (CStr (''Deleted: '' @ cellText e reason @ '' ('' @ now e @ '')'')) w2 = (Inr u3, w3)"
    and s3: "setIfColumn e BufferSheet r (getColumnIndex headers ''Last Modified'')
       (CStr (now e)) w3 = (Inr u, w')"
    by (rule andThen_InrE)
  show thesis
  proof (rule that [of w2 w3, OF ne])
    show "setIfColumn e BufferSheet r (getColumnIndex (hd (sheets w BufferSheet)) ''Status'')
       (CStr ''Deleted'') w = (Inr (), w2)" using s1 w1 hd by simp
    show "setIfColumn e BufferSheet r (getColumnIndex (hd (sheets w BufferSheet)) ''Reason'')
       (CStr (''Deleted: '' @ cellText e reason @ '' ('' @ now e @ '')'')) w2 = (Inr (), w3)"
      using s2 hd by simp
    show "setIfColumn e BufferSheet r (getColumnIndex (hd (sheets w BufferSheet)) ''Last Modified'')
       (CStr (now e)) w3 = (Inr (), w')" using s3 hd by simp
  qed
qed

lemma updateBufferSheetForDeletion_success:
  assumes run: "updateBufferSheetForDeletion e r reason w = (Inr u, w')"
    and r: "2 \<le> r" "r \<le> length (sheets w BufferSheet)"
    and cs: "getColumnIndex (hd (sheets w BufferSheet)) ''Status'' \<noteq> - 1"
    and cr: "getColumnIndex (hd (sheets w BufferSheet)) ''Reason'' \<noteq> - 1"
  shows "sheetCell (sheets w' BufferSheet) r ''Status'' = CStr ''Deleted''"
    and "sheetCell (sheets w' BufferSheet) r ''Reason'' =
          CStr (''Deleted: '' @ cellText e reason @ '' ('' @ now e @ '')'')"
proof -
  let ?h = "hd (sheets w BufferSheet)"
  from run obtain w2 w3 where
    ne: "sheets w BufferSheet \<noteq> []"
    and s1: "setIfColumn e BufferSheet r (getColumnIndex ?h ''Status'') (CStr ''Deleted'') w = (Inr (), w2)"
    and s2: "setIfColumn e BufferSheet r (getColumnIndex ?h ''Reason'')
       (CStr (''Deleted: '' @ cellText e reason @ '' ('' @ now e @ '')'')) w2 = (Inr (), w3)"
    and s3: "setIfColumn e BufferSheet r (getColumnIndex ?h ''Last Modified'')
       (CStr (now e)) w3 = (Inr (), w')"
    by (rule updateBufferSheetForDeletion_steps)
  note k1 = setIfColumn_keeps [OF s1 r getColumnIndex_ge]
  from k1(1) r have r2: "2 \<le> r" "r \<le> length (sheets w2 BufferSheet)" by simp_all
  note k2 = setIfColumn_keeps [OF s2 r2 getColumnIndex_ge]
  from k2(1) r2 have r3: "2 \<le> r" "r \<le> length (sheets w3 BufferSheet)" by simp_all
  note k3 = setIfColumn_keeps [OF s3 r3 getColumnIndex_ge]
  have hd: "hd (sheets w' BufferSheet) = ?h" using k1(2) k2(2) k3(2) by simp
  have sr: "getColumnIndex ?h ''Status'' \<noteq> getColumnIndex ?h ''Reason''"
  proof
    assume "getColumnIndex ?h ''Status'' = getColumnIndex ?h ''Reason''"
    from getColumnIndex_inj [OF cs this] show False by simp
  qed
  have sl: "getColumnIndex ?h ''Status'' \<noteq> getColumnIndex ?h ''Last Modified''"
  proof
    assume "getColumnIndex ?h ''Status'' = getColumnIndex ?h ''Last Modified''"
    from getColumnIndex_inj [OF cs this] show False by simp
  qed
  have rl: "getColumnIndex ?h ''Reason'' \<noteq> getColumnIndex ?h ''Last Modified''"
  proof
    assume "getColumnIndex ?h ''Reason'' = getColumnIndex ?h ''Last Modified''"
    from getColumnIndex_inj [OF cr this] show False by simp
  qed
  have "safeGetCellValue (sheets w' BufferSheet ! (r - 1)) (getColumnIndex ?h ''Status'') (CStr [])
      = safeGetCellValue (sheets w3 BufferSheet ! (r - 1)) (getColumnIndex ?h ''Status'') (CStr [])"
    by (rule k3(3) [OF sl])
  also have "\<dots> = safeGetCellValue (sheets w2 BufferSheet ! (r - 1))
      (getColumnIndex ?h ''Status'') (CStr [])"
    by (rule k2(3) [OF sr])
  also have "\<dots> = CStr ''Deleted''" by (rule k1(4) [OF cs])
  finally show "sheetCell (sheets w' BufferSheet) r ''Status'' = CStr ''Deleted''"
    unfolding sheetCell_def hd .
  have "safeGetCellValue (sheets w' BufferSheet ! (r - 1)) (getColumnIndex ?h ''Reason'') (CStr [])
      = safeGetCellValue (sheets w3 BufferSheet ! (r - 1)) (getColumnIndex ?h ''Reason'') (CStr [])"
    by (rule k3(3) [OF rl])
  also have "\<dots> = CStr (''Deleted: '' @ cellText e reason @ '' ('' @ now e @ '')'')"
    by (rule k2(4) [OF cr])
  finally show "sheetCell (sheets w' BufferSheet) r ''Reason'' =
          CStr (''Deleted: '' @ cellText e reason @ '' ('' @ now e @ '')'')"
    unfolding sheetCell_def hd .
qed


lemma extractFileIdFromUrl_empty: "extractFileIdFromUrl (CStr []) = None"
  by (simp add: extractFileIdFromUrl_def)

text \<open>Success when only the folder calls may fail.\<close>

lemma removeLoop_succeeds:
  "\<forall>r. \<not> faulty e (DeleteRow sid r) \<Longrightarrow> \<exists>n. fst (removeLoop e sid data col v i cnt w) = Inr n"
proof (induction i arbitrary: cnt w)
  case 0
  then show ?case by simp
next
  case (Suc i)
  then show ?case by (simp add: deleteRow_def)
qed

lemma removeFromSheet_succeeds:
  assumes "\<not> faulty e (GetLastRow sid)" "\<not> faulty e (GetValues sid)"
    and "\<forall>r. \<not> faulty e (DeleteRow sid r)"
  shows "\<exists>n. fst (removeFromSheet e sid v columnHeader w) = Inr n"
  using assms removeLoop_succeeds [of e sid]
  by (simp add: removeFromSheet_def getLastRow_def getValues_def Let_def split: list.splits)

lemma removeFileFromDriveFolders_succeeds:
  assumes "\<not> faulty e (GetFileById fid)" and "extractFileIdFromUrl url = Some fid"
    and "map_of (driveFiles w) fid = Some name" and "\<forall>f. \<not> faulty e (GetFolderName f)"
  shows "fst (removeFileFromDriveFolders e url w) = Inr ()"
  using assms
  by (simp add: removeFileFromDriveFolders_def getFileById_def andThen_fst_Inr
      removeFromCategoryFolder_quiet)

lemma updateBufferSheetForDeletion_succeeds:
  assumes "\<not> faulty e (GetHeaders BufferSheet)" and "\<forall>r c. \<not> faulty e (SetValue BufferSheet r c)"
    and "sheets w BufferSheet \<noteq> []"
  shows "fst (updateBufferSheetForDeletion e r reason w) = Inr ()"
proof -
  from assms obtain headers rows where g: "sheets w BufferSheet = headers # rows"
    by (cases "sheets w BufferSheet") auto
  with assms(1) have h: "getHeaders e BufferSheet w = (Inr headers, w)"
    by (simp add: getHeaders_def)
  show ?thesis
    unfolding updateBufferSheetForDeletion_def h
    by (simp add: andThen_fst_Inr setIfColumn_quiet assms(2))
qed

lemma processFileDeletion_succeeds:
  assumes q: "\<And>c. faulty e c \<Longrightarrow> (\<exists>f x. c = ListFolder f \<or> c = RemoveFile f x)"
    and id: "extractFileIdFromUrl (d_fileUrl item) = Some fid"
    and known: "map_of (driveFiles w) fid = Some name"
    and ne: "sheets w BufferSheet \<noteq> []"
  shows "fst (processFileDeletion e item w) = Inr ()"
proof -
  from q have nf: "\<not> faulty e (GetFileById fid)" "\<And>sid. \<not> faulty e (GetLastRow sid)"
    "\<And>sid. \<not> faulty e (GetValues sid)" "\<And>sid. \<forall>r. \<not> faulty e (DeleteRow sid r)"
    "\<And>sid. \<not> faulty e (GetHeaders sid)" "\<And>sid. \<forall>r c. \<not> faulty e (SetValue sid r c)"
    "\<forall>f. \<not> faulty e (GetFolderName f)"
    by blast+
  let ?url = "d_fileUrl item"
  let ?s1 = "removeFileFromDriveFolders e ?url w"
  note a1 = removeFileFromDriveFolders_succeeds [OF nf(1) id known nf(7)]
  let ?s2 = "removeFromSheet e FinalSheet ?url ''File URL'' (snd ?s1)"
  from removeFromSheet_succeeds [OF nf(2) nf(3) nf(4)] obtain n2 where a2: "fst ?s2 = Inr n2"
    by blast
  let ?s3 = "removeFromSheet e InflowSheet ?url ''File URL'' (snd ?s2)"
  from removeFromSheet_succeeds [OF nf(2) nf(3) nf(4)] obtain n3 where a3: "fst ?s3 = Inr n3"
    by blast
  let ?s4 = "removeFromSheet e OutflowSheet ?url ''File URL'' (snd ?s3)"
  from removeFromSheet_succeeds [OF nf(2) nf(3) nf(4)] obtain n4 where a4: "fst ?s4 = Inr n4"
    by blast
  have "sheets (snd ?s4) BufferSheet = sheets w BufferSheet"
    using removeFileFromDriveFolders_sheets [OF prod.collapse [symmetric], of e ?url w]
      removeFromSheet_frame [OF prod.collapse [symmetric], of e FinalSheet ?url "''File URL''" "snd ?s1"]
      removeFromSheet_frame [OF prod.collapse [symmetric], of e InflowSheet ?url "''File URL''" "snd ?s2"]
      removeFromSheet_frame [OF prod.collapse [symmetric], of e OutflowSheet ?url "''File URL''" "snd ?s3"]
    by simp
  with ne have ne4: "sheets (snd ?s4) BufferSheet \<noteq> []" by simp
  note a5 = updateBufferSheetForDeletion_succeeds [OF nf(5) nf(6) ne4,
      of "d_rowIndex item" "d_reason item"]
  show ?thesis
    unfolding processFileDeletion_def
    by (simp only: andThen_fst_Inr [OF a1] andThen_fst_Inr [OF a2] andThen_fst_Inr [OF a3]
        andThen_fst_Inr [OF a4] a5)
qed


lemma removeFileFromDriveFolders_stuck:
  assumes "faulty e (RemoveFile f fid)" and "extractFileIdFromUrl url = Some fid"
  shows "folders (snd (removeFileFromDriveFolders e url w)) f = folders w f"
proof -
  obtain r w' where run: "removeFileFromDriveFolders e url w = (r, w')"
    by (cases "removeFileFromDriveFolders e url w")
  from run have "folders w' f = folders w f"
  proof (cases rule: removeFileFromDriveFolders_cases)
    case (inflow fid' name err)
    with assms(2) have fid: "fid' = fid" by simp
    from inflow(3) have "w' = snd (removeFromCategoryFolder e fid name InflowFolder w)"
      unfolding fid by simp
    with assms(1) inflow(2) [unfolded fid] show ?thesis
      by (cases "f = InflowFolder")
         (simp_all add: removeFromCategoryFolder_folder removeFromCategoryFolder_frame)
  next
    case (outflow fid' name w1)
    with assms(2) have fid: "fid' = fid" by simp
    from outflow(3) have w1: "w1 = snd (removeFromCategoryFolder e fid name InflowFolder w)"
      unfolding fid by simp
    from outflow(4) have w': "w' = snd (removeFromCategoryFolder e fid name OutflowFolder w1)"
      unfolding fid by simp
    have known1: "map_of (driveFiles w1) fid = Some name"
      unfolding w1 using outflow(2) [unfolded fid] by (simp add: removeFromCategoryFolder_frame)
    have one: "folders w1 f = folders w f"
      unfolding w1 using assms(1) outflow(2) [unfolded fid]
      by (cases "f = InflowFolder")
         (simp_all add: removeFromCategoryFolder_folder removeFromCategoryFolder_frame)
    have two: "folders w' f = folders w1 f"
      unfolding w' using assms(1) known1
      by (cases "f = OutflowFolder")
         (simp_all add: removeFromCategoryFolder_folder removeFromCategoryFolder_frame)
    from one two show ?thesis by simp
  qed simp_all
  with run show ?thesis by simp
qed

lemma processFileDeletion_reaches_update:
  assumes q: "\<And>c. faulty e c \<Longrightarrow> (\<exists>f x. c = ListFolder f \<or> c = RemoveFile f x)"
    and id: "extractFileIdFromUrl (d_fileUrl item) = Some fid"
    and known: "map_of (driveFiles w) fid = Some name"
  obtains w4 where
    "processFileDeletion e item w =
       updateBufferSheetForDeletion e (d_rowIndex item) (d_reason item) w4"
    and "sheets w4 BufferSheet = sheets w BufferSheet"
    and "folders w4 = folders (snd (removeFileFromDriveFolders e (d_fileUrl item) w))"
proof -
  from q have nf: "\<not> faulty e (GetFileById fid)" "\<And>sid. \<not> faulty e (GetLastRow sid)"
    "\<And>sid. \<not> faulty e (GetValues sid)" "\<And>sid. \<forall>r. \<not> faulty e (DeleteRow sid r)"
    "\<forall>f. \<not> faulty e (GetFolderName f)"
    by blast+
  let ?url = "d_fileUrl item"
  let ?s1 = "removeFileFromDriveFolders e ?url w"
  note a1 = removeFileFromDriveFolders_succeeds [OF nf(1) id known nf(5)]
  let ?s2 = "removeFromSheet e FinalSheet ?url ''File URL'' (snd ?s1)"
  from removeFromSheet_succeeds [OF nf(2) nf(3) nf(4)] obtain n2 where a2: "fst ?s2 = Inr n2"
    by blast
  let ?s3 = "removeFromSheet e InflowSheet ?url ''File URL'' (snd ?s2)"
  from removeFromSheet_succeeds [OF nf(2) nf(3) nf(4)] obtain n3 where a3: "fst ?s3 = Inr n3"
    by blast
  let ?s4 = "removeFromSheet e OutflowSheet ?url ''File URL'' (snd ?s3)"
  from removeFromSheet_succeeds [OF nf(2) nf(3) nf(4)] obtain n4 where a4: "fst ?s4 = Inr n4"
    by blast
  note f1 = removeFileFromDriveFolders_sheets [OF prod.collapse [symmetric], of e ?url w]
  note f2 = removeFromSheet_frame [OF prod.collapse [symmetric],
      of e FinalSheet ?url "''File URL''" "snd ?s1"]
  note f3 = removeFromSheet_frame [OF prod.collapse [symmetric],
      of e InflowSheet ?url "''File URL''" "snd ?s2"]
  note f4 = removeFromSheet_frame [OF prod.collapse [symmetric],
      of e OutflowSheet ?url "''File URL''" "snd ?s3"]
  show thesis
  proof (rule that [of "snd ?s4"])
    show "processFileDeletion e item w =
        updateBufferSheetForDeletion e (d_rowIndex item) (d_reason item) (snd ?s4)"
      unfolding processFileDeletion_def
      by (simp only: andThen_fst_Inr [OF a1] andThen_fst_Inr [OF a2] andThen_fst_Inr [OF a3]
          andThen_fst_Inr [OF a4])
    show "sheets (snd ?s4) BufferSheet = sheets w BufferSheet" using f1 f2 f3 f4 by simp
    show "folders (snd ?s4) = folders (snd ?s1)" using f2 f3 f4 by simp
  qed
qed

lemma processFileDeletion_marks_with_stuck_folder:
  assumes q: "\<And>c. faulty e c \<Longrightarrow> (\<exists>f x. c = ListFolder f \<or> c = RemoveFile f x)"
    and id: "extractFileIdFromUrl (d_fileUrl item) = Some fid"
    and known: "map_of (driveFiles w) fid = Some name"
    and r: "2 \<le> d_rowIndex item" "d_rowIndex item \<le> length (sheets w BufferSheet)"
    and cs: "getColumnIndex (hd (sheets w BufferSheet)) ''Status'' \<noteq> - 1"
    and cr: "getColumnIndex (hd (sheets w BufferSheet)) ''Reason'' \<noteq> - 1"
    and stuck: "faulty e (RemoveFile f fid)"
  shows "fst (processFileDeletion e item w) = Inr ()"
    and "sheetCell (sheets (snd (processFileDeletion e item w)) BufferSheet) (d_rowIndex item)
           ''Status'' = CStr ''Deleted''"
    and "sheetCell (sheets (snd (processFileDeletion e item w)) BufferSheet) (d_rowIndex item)
           ''Reason'' = CStr (''Deleted: '' @ cellText e (d_reason item) @ '' ('' @ now e @ '')'')"
    and "folders (snd (processFileDeletion e item w)) f = folders w f"
proof -
  from r have ne: "sheets w BufferSheet \<noteq> []" by auto
  show ok: "fst (processFileDeletion e item w) = Inr ()"
    by (rule processFileDeletion_succeeds [OF q id known ne])
  from q id known obtain w4 where
    eq: "processFileDeletion e item w =
       updateBufferSheetForDeletion e (d_rowIndex item) (d_reason item) w4"
    and b4: "sheets w4 BufferSheet = sheets w BufferSheet"
    and fo: "folders w4 = folders (snd (removeFileFromDriveFolders e (d_fileUrl item) w))"
    by (rule processFileDeletion_reaches_update)
  from ok have run: "updateBufferSheetForDeletion e (d_rowIndex item) (d_reason item) w4 =
      (Inr (), snd (processFileDeletion e item w))"
    unfolding eq by (simp add: prod_eq_iff)
  note m = updateBufferSheetForDeletion_success [OF run r [folded b4] cs [folded b4] cr [folded b4]]
  from m(1) show "sheetCell (sheets (snd (processFileDeletion e item w)) BufferSheet)
      (d_rowIndex item) ''Status'' = CStr ''Deleted''" .
  from m(2) show "sheetCell (sheets (snd (processFileDeletion e item w)) BufferSheet)
      (d_rowIndex item) ''Reason'' =
      CStr (''Deleted: '' @ cellText e (d_reason item) @ '' ('' @ now e @ '')'')" .
  from updateBufferSheetForDeletion_frame [OF run]
  have "folders (snd (processFileDeletion e item w)) = folders w4"
    by (simp add: onlyBufferSheet_def)
  with fo removeFileFromDriveFolders_stuck [OF stuck id, of w]
  show "folders (snd (processFileDeletion e item w)) f = folders w f" by simp
qed


lemma pendingDeletion_facts:
  "extractFileIdFromUrl (d_fileUrl pendingDeletion) = Some ''fileA''"
  "map_of (driveFiles deletionWorld) ''fileA'' = Some ''a.pdf''"
  "2 \<le> d_rowIndex pendingDeletion"
  "d_rowIndex pendingDeletion \<le> length (sheets deletionWorld BufferSheet)"
  "getColumnIndex (hd (sheets deletionWorld BufferSheet)) ''Status'' \<noteq> - 1"
  "getColumnIndex (hd (sheets deletionWorld BufferSheet)) ''Reason'' \<noteq> - 1"
proof -
  show "extractFileIdFromUrl (d_fileUrl pendingDeletion) = Some ''fileA''" by code_simp
  show "map_of (driveFiles deletionWorld) ''fileA'' = Some ''a.pdf''"
    by (simp add: deletionWorld_def)
  show "2 \<le> d_rowIndex pendingDeletion" by (simp add: pendingDeletion_def)
  show "d_rowIndex pendingDeletion \<le> length (sheets deletionWorld BufferSheet)"
    by (simp add: pendingDeletion_def deletionWorld_def)
  have h: "hd (sheets deletionWorld BufferSheet) = bufferColumns" by (simp add: deletionWorld_def)
  have "getColumnIndex bufferColumns ''Status'' = 6" by code_simp
  then show "getColumnIndex (hd (sheets deletionWorld BufferSheet)) ''Status'' \<noteq> - 1"
    unfolding h by simp
  have "getColumnIndex bufferColumns ''Reason'' = 7" by code_simp
  then show "getColumnIndex (hd (sheets deletionWorld BufferSheet)) ''Reason'' \<noteq> - 1"
    unfolding h by simp
qed

text \<open>
  Claim C1 concludes from the order of the steps that a record is never marked Deleted
  while its blob is still in a category folder.  \<^verbatim>\<open>removeFileFromDriveFolders\<close> catches
  the exception of a folder and goes on with a warning: when the removal from the Inflow
  folder fails, \<^verbatim>\<open>processFileDeletion\<close> still succeeds, the Buffer row gets the status
  \<^verbatim>\<open>Deleted\<close> and the prefixed reason, and the file is still in the Inflow folder.
\<close>

theorem marked_deleted_with_blob_in_category_folder:
  "fst (processFileDeletion stuckFolderEnv pendingDeletion deletionWorld) = Inr ()
   \<and> sheetCell (sheets (snd (processFileDeletion stuckFolderEnv pendingDeletion deletionWorld))
        BufferSheet) 2 ''Status'' = CStr ''Deleted''
   \<and> sheetCell (sheets (snd (processFileDeletion stuckFolderEnv pendingDeletion deletionWorld))
        BufferSheet) 2 ''Reason'' = CStr ''Deleted: duplicate (2026-01-01T00:00:00.000Z)''
   \<and> ''fileA'' \<in> set (folders (snd (processFileDeletion stuckFolderEnv pendingDeletion
        deletionWorld)) InflowFolder)"
proof -
  have q: "\<And>c. faulty stuckFolderEnv c \<Longrightarrow> (\<exists>f x. c = ListFolder f \<or> c = RemoveFile f x)"
    by (simp add: stuckFolderEnv_def)
  have stuck: "faulty stuckFolderEnv (RemoveFile InflowFolder ''fileA'')" by (simp add: stuckFolderEnv_def)
  note m = processFileDeletion_marks_with_stuck_folder [OF q pendingDeletion_facts stuck]
  have two: "d_rowIndex pendingDeletion = 2" by (simp add: pendingDeletion_def)
  have msg: "''Deleted: '' @ cellText stuckFolderEnv (d_reason pendingDeletion) @ '' ('' @ now stuckFolderEnv @ '')'' = ''Deleted: duplicate (2026-01-01T00:00:00.000Z)''"
    by (simp add: pendingDeletion_def stuckFolderEnv_def quietEnv_def)
  have inflow: "''fileA'' \<in> set (folders deletionWorld InflowFolder)"
    by (simp add: deletionWorld_def)
  show ?thesis
  proof (intro conjI)
    show "fst (processFileDeletion stuckFolderEnv pendingDeletion deletionWorld) = Inr ()"
      by (rule m(1))
    show "sheetCell (sheets (snd (processFileDeletion stuckFolderEnv pendingDeletion deletionWorld))
        BufferSheet) 2 ''Status'' = CStr ''Deleted''"
      using m(2) unfolding two .
    show "sheetCell (sheets (snd (processFileDeletion stuckFolderEnv pendingDeletion deletionWorld))
        BufferSheet) 2 ''Reason'' = CStr ''Deleted: duplicate (2026-01-01T00:00:00.000Z)''"
      using m(3) unfolding two msg .
    show "''fileA'' \<in> set (folders (snd (processFileDeletion stuckFolderEnv pendingDeletion
        deletionWorld)) InflowFolder)"
      by (simp only: m(4) inflow)
  qed
qed

text \<open>What has happened when the Buffer sheet has been written, and what the write is.\<close>

lemma processFileDeletion_written:
  assumes run: "processFileDeletion e item w = (res, w')"
  shows "(sheets w' BufferSheet \<noteq> sheets w BufferSheet \<or> res = Inr () \<longrightarrow>
            d_fileUrl item \<notin> set (fileUrls (sheets w' FinalSheet))
          \<and> d_fileUrl item \<notin> set (fileUrls (sheets w' InflowSheet))
          \<and> d_fileUrl item \<notin> set (fileUrls (sheets w' OutflowSheet))
          \<and> (\<exists>fid. extractFileIdFromUrl (d_fileUrl item) = Some fid
                \<and> (fid \<in> set (folders w' InflowFolder) \<longrightarrow>
                      faulty e (ListFolder InflowFolder) \<or> faulty e (RemoveFile InflowFolder fid))
                \<and> (fid \<in> set (folders w' OutflowFolder) \<longrightarrow>
                      faulty e (ListFolder OutflowFolder) \<or> faulty e (RemoveFile OutflowFolder fid))))
     \<and> (res = Inr () \<and> 2 \<le> d_rowIndex item \<and> d_rowIndex item \<le> length (sheets w BufferSheet)
          \<and> getColumnIndex (hd (sheets w BufferSheet)) ''Status'' \<noteq> - 1
          \<and> getColumnIndex (hd (sheets w BufferSheet)) ''Reason'' \<noteq> - 1 \<longrightarrow>
            sheetCell (sheets w' BufferSheet) (d_rowIndex item) ''Status'' = CStr ''Deleted''
          \<and> sheetCell (sheets w' BufferSheet) (d_rowIndex item) ''Reason'' =
              CStr (''Deleted: '' @ cellText e (d_reason item) @ '' ('' @ now e @ '')''))"
    (is "(?touched \<longrightarrow> ?clean) \<and> (?marking \<longrightarrow> ?marked)")
proof -
  let ?url = "d_fileUrl item"
  obtain r1 w1 where s1: "removeFileFromDriveFolders e ?url w = (r1, w1)"
    by (cases "removeFileFromDriveFolders e ?url w")
  from removeFileFromDriveFolders_sheets [OF s1] have sh1: "sheets w1 = sheets w" .
  show ?thesis
  proof (cases r1)
    case (Inl err)
    with s1 run have "res = Inl err" "w' = w1"
      by (simp_all add: processFileDeletion_def)
    with sh1 show ?thesis by simp
  next
    case (Inr u1)
    from s1 [unfolded Inr] obtain fid where id: "extractFileIdFromUrl ?url = Some fid"
      and fin: "fid \<in> set (folders w1 InflowFolder) \<longrightarrow>
           faulty e (ListFolder InflowFolder) \<or> faulty e (RemoveFile InflowFolder fid)"
      and fout: "fid \<in> set (folders w1 OutflowFolder) \<longrightarrow>
           faulty e (ListFolder OutflowFolder) \<or> faulty e (RemoveFile OutflowFolder fid)"
      by (rule removeFileFromDriveFolders_Inr)
    from id extractFileIdFromUrl_empty have v: "?url \<noteq> CStr []" by auto
    obtain r2 w2 where s2: "removeFromSheet e FinalSheet ?url ''File URL'' w1 = (r2, w2)"
      by (cases "removeFromSheet e FinalSheet ?url ''File URL'' w1")
    from removeFromSheet_frame [OF s2] have f2: "folders w2 = folders w1"
      "sheets w2 BufferSheet = sheets w1 BufferSheet" by simp_all
    show ?thesis
    proof (cases r2)
      case (Inl err)
      with s1 Inr s2 run have "res = Inl err" "w' = w2"
        by (simp_all add: processFileDeletion_def)
      with sh1 f2 show ?thesis by simp
    next
      case n2: (Inr n2)
      from removeFromSheet_result [OF s2 [unfolded n2] v]
      have g2: "?url \<notin> set (fileUrls (sheets w2 FinalSheet))" .
      obtain r3 w3 where s3: "removeFromSheet e InflowSheet ?url ''File URL'' w2 = (r3, w3)"
        by (cases "removeFromSheet e InflowSheet ?url ''File URL'' w2")
      from removeFromSheet_frame [OF s3] have f3: "folders w3 = folders w2"
        "sheets w3 BufferSheet = sheets w2 BufferSheet"
        "sheets w3 FinalSheet = sheets w2 FinalSheet" by simp_all
      show ?thesis
      proof (cases r3)
        case (Inl err)
        with s1 Inr s2 n2 s3 run have "res = Inl err" "w' = w3"
          by (simp_all add: processFileDeletion_def)
        with sh1 f2 f3 show ?thesis by simp
      next
        case n3: (Inr n3)
        from removeFromSheet_result [OF s3 [unfolded n3] v]
        have g3: "?url \<notin> set (fileUrls (sheets w3 InflowSheet))" .
        obtain r4 w4 where s4: "removeFromSheet e OutflowSheet ?url ''File URL'' w3 = (r4, w4)"
          by (cases "removeFromSheet e OutflowSheet ?url ''File URL'' w3")
        from removeFromSheet_frame [OF s4] have f4: "folders w4 = folders w3"
          "sheets w4 BufferSheet = sheets w3 BufferSheet"
          "sheets w4 FinalSheet = sheets w3 FinalSheet"
          "sheets w4 InflowSheet = sheets w3 InflowSheet" by simp_all
        show ?thesis
        proof (cases r4)
          case (Inl err)
          with s1 Inr s2 n2 s3 n3 s4 run have "res = Inl err" "w' = w4"
            by (simp_all add: processFileDeletion_def)
          with sh1 f2 f3 f4 show ?thesis by simp
        next
          case n4: (Inr n4)
          from removeFromSheet_result [OF s4 [unfolded n4] v]
          have g4: "?url \<notin> set (fileUrls (sheets w4 OutflowSheet))" .
          from s1 Inr s2 n2 s3 n3 s4 n4 run
          have s5: "updateBufferSheetForDeletion e (d_rowIndex item) (d_reason item) w4 = (res, w')"
            by (simp add: processFileDeletion_def)
          from updateBufferSheetForDeletion_frame [OF s5]
          have f5: "folders w' = folders w4" "sheets w' FinalSheet = sheets w4 FinalSheet"
            "sheets w' InflowSheet = sheets w4 InflowSheet"
            "sheets w' OutflowSheet = sheets w4 OutflowSheet"
            by (simp_all add: onlyBufferSheet_def)
          have b4: "sheets w4 BufferSheet = sheets w BufferSheet"
            using sh1 f2 f3 f4 by simp
          have fo: "folders w' = folders w1" using f2 f3 f4 f5 by simp
          have clean: ?clean
          proof (intro conjI exI [of _ fid] impI)
            show "?url \<notin> set (fileUrls (sheets w' FinalSheet))" using g2 f3 f4 f5 by simp
            show "?url \<notin> set (fileUrls (sheets w' InflowSheet))" using g3 f4 f5 by simp
            show "?url \<notin> set (fileUrls (sheets w' OutflowSheet))" using g4 f5 by simp
            show "extractFileIdFromUrl ?url = Some fid" by (rule id)
            show "faulty e (ListFolder InflowFolder) \<or> faulty e (RemoveFile InflowFolder fid)"
              if "fid \<in> set (folders w' InflowFolder)" using that fin fo by simp
            show "faulty e (ListFolder OutflowFolder) \<or> faulty e (RemoveFile OutflowFolder fid)"
              if "fid \<in> set (folders w' OutflowFolder)" using that fout fo by simp
          qed
          have marked: ?marked if m: ?marking
          proof -
            from m have ok: "res = Inr ()" and r: "2 \<le> d_rowIndex item"
              "d_rowIndex item \<le> length (sheets w4 BufferSheet)"
              and cs: "getColumnIndex (hd (sheets w4 BufferSheet)) ''Status'' \<noteq> - 1"
              and cr: "getColumnIndex (hd (sheets w4 BufferSheet)) ''Reason'' \<noteq> - 1"
              unfolding b4 by simp_all
            from updateBufferSheetForDeletion_success [OF s5 [unfolded ok] r cs cr]
            show ?marked by (rule conjI)
          qed
          from clean marked show ?thesis by blast
        qed
      qed
    qed
  qed
qed


text \<open>A step that raises ends the call in the world it leaves.\<close>

lemma processFileDeletion_raises:
  fixes e item w
  defines "s1 \<equiv> removeFileFromDriveFolders e (d_fileUrl item) w"
  defines "s2 \<equiv> removeFromSheet e FinalSheet (d_fileUrl item) ''File URL'' (snd s1)"
  defines "s3 \<equiv> removeFromSheet e InflowSheet (d_fileUrl item) ''File URL'' (snd s2)"
  defines "s4 \<equiv> removeFromSheet e OutflowSheet (d_fileUrl item) ''File URL'' (snd s3)"
  shows "fst s1 = Inl err \<Longrightarrow> processFileDeletion e item w = (Inl err, snd s1)"
    and "fst s1 = Inr () \<Longrightarrow> fst s2 = Inl err \<Longrightarrow>
         processFileDeletion e item w = (Inl err, snd s2)"
    and "fst s1 = Inr () \<Longrightarrow> fst s2 = Inr n2 \<Longrightarrow> fst s3 = Inl err \<Longrightarrow>
         processFileDeletion e item w = (Inl err, snd s3)"
    and "fst s1 = Inr () \<Longrightarrow> fst s2 = Inr n2 \<Longrightarrow> fst s3 = Inr n3 \<Longrightarrow> fst s4 = Inl err \<Longrightarrow>
         processFileDeletion e item w = (Inl err, snd s4)"
proof -
  show "processFileDeletion e item w = (Inl err, snd s1)" if "fst s1 = Inl err"
    unfolding processFileDeletion_def
    by (simp only: andThen_fst_Inl [OF that [unfolded s1_def]] s1_def)
  show "processFileDeletion e item w = (Inl err, snd s2)"
    if a: "fst s1 = Inr ()" and b: "fst s2 = Inl err"
    unfolding processFileDeletion_def
    by (simp only: andThen_fst_Inr [OF a [unfolded s1_def]]
        andThen_fst_Inl [OF b [unfolded s2_def s1_def]] s1_def s2_def)
  show "processFileDeletion e item w = (Inl err, snd s3)"
    if a: "fst s1 = Inr ()" and b: "fst s2 = Inr n2" and c: "fst s3 = Inl err"
    unfolding processFileDeletion_def
    by (simp only: andThen_fst_Inr [OF a [unfolded s1_def]]
        andThen_fst_Inr [OF b [unfolded s2_def s1_def]]
        andThen_fst_Inl [OF c [unfolded s3_def s2_def s1_def]] s1_def s2_def s3_def)
  show "processFileDeletion e item w = (Inl err, snd s4)"
    if a: "fst s1 = Inr ()" and b: "fst s2 = Inr n2" and c: "fst s3 = Inr n3"
      and d: "fst s4 = Inl err"
    unfolding processFileDeletion_def
    by (simp only: andThen_fst_Inr [OF a [unfolded s1_def]]
        andThen_fst_Inr [OF b [unfolded s2_def s1_def]]
        andThen_fst_Inr [OF c [unfolded s3_def s2_def s1_def]]
        andThen_fst_Inl [OF d [unfolded s4_def s3_def s2_def s1_def]]
        s1_def s2_def s3_def s4_def)
qed

lemma removeFromSheet_other:
  "sid' \<noteq> sid \<Longrightarrow> sheets (snd (removeFromSheet e sid v columnHeader w)) sid' = sheets w sid'"
  using removeFromSheet_frame [OF prod.collapse [symmetric], of e sid v columnHeader w] by simp

lemma removeFileFromDriveFolders_snd_sheets:
  "sheets (snd (removeFileFromDriveFolders e url w)) = sheets w"
  by (rule removeFileFromDriveFolders_sheets [OF prod.collapse [symmetric]])

lemma processFileDeletion_lookup_fails:
  "extractFileIdFromUrl (d_fileUrl item) = None \<Longrightarrow>
   processFileDeletion e item w = (Inl INVALID_INPUT, w)"
  "extractFileIdFromUrl (d_fileUrl item) = Some fid \<Longrightarrow>
   faulty e (GetFileById fid) \<or> map_of (driveFiles w) fid = None \<Longrightarrow>
   processFileDeletion e item w = (Inl (ServiceError (GetFileById fid)), w)"
proof -
  show "processFileDeletion e item w = (Inl INVALID_INPUT, w)"
    if "extractFileIdFromUrl (d_fileUrl item) = None"
    using that by (simp add: processFileDeletion_def removeFileFromDriveFolders_def)
  show "processFileDeletion e item w = (Inl (ServiceError (GetFileById fid)), w)"
    if id: "extractFileIdFromUrl (d_fileUrl item) = Some fid"
      and "faulty e (GetFileById fid) \<or> map_of (driveFiles w) fid = None"
  proof -
    from that(2) have "getFileById e fid w = (Inl (ServiceError (GetFileById fid)), w)"
      by (auto simp: getFileById_def)
    with id show ?thesis by (simp add: processFileDeletion_def removeFileFromDriveFolders_def)
  qed
qed

text \<open>
  Claim C1 as amended: \<^verbatim>\<open>processFileDeletion\<close> removes the blob from the category
  folders, then the matching rows from the Final sheet, the Inflow sheet and the Outflow
  sheet, and writes the Buffer row last.
  \<^item> When the blob lookup fails (no file id in the URL, or no such file), the call raises and
    nothing at all has been changed.
  \<^item> When a step raises, the call raises the same exception in the world that the step has
    left: after the blob step no sheet has been touched, and after the removal from a
    sheet the sheets of the later steps and the Buffer sheet are as they were.
  \<^item> Whenever the Buffer sheet has been changed, or the call has succeeded, no row of the
    three sheets has the File URL of the item, and the blob is in a category folder only if
    a call on that folder failed (such a failure is logged and skipped).
  \<^item> When the call succeeds on a row of the sheet with a Status and a Reason column, the
    status of the row is \<^verbatim>\<open>Deleted\<close> and its reason is the old one between
    \<^verbatim>\<open>Deleted: \<close> and the timestamp.
\<close>

theorem deletion_writes_buffer_last:
  assumes run: "processFileDeletion e item w = (res, w')"
  shows "(let url = d_fileUrl item;
              s1 = removeFileFromDriveFolders e url w;
              s2 = removeFromSheet e FinalSheet url ''File URL'' (snd s1);
              s3 = removeFromSheet e InflowSheet url ''File URL'' (snd s2);
              s4 = removeFromSheet e OutflowSheet url ''File URL'' (snd s3)
          in (extractFileIdFromUrl url = None \<longrightarrow> res = Inl INVALID_INPUT \<and> w' = w)
           \<and> (\<forall>fid. extractFileIdFromUrl url = Some fid
                  \<and> (faulty e (GetFileById fid) \<or> map_of (driveFiles w) fid = None) \<longrightarrow>
                  res = Inl (ServiceError (GetFileById fid)) \<and> w' = w)
           \<and> (\<forall>err. fst s1 = Inl err \<longrightarrow>
                  res = Inl err \<and> w' = snd s1 \<and> sheets w' = sheets w)
           \<and> (\<forall>err. fst s1 = Inr () \<and> fst s2 = Inl err \<longrightarrow>
                  res = Inl err \<and> w' = snd s2
                  \<and> sheets w' InflowSheet = sheets w InflowSheet
                  \<and> sheets w' OutflowSheet = sheets w OutflowSheet
                  \<and> sheets w' BufferSheet = sheets w BufferSheet)
           \<and> (\<forall>err n2. fst s1 = Inr () \<and> fst s2 = Inr n2 \<and> fst s3 = Inl err \<longrightarrow>
                  res = Inl err \<and> w' = snd s3
                  \<and> sheets w' OutflowSheet = sheets w OutflowSheet
                  \<and> sheets w' BufferSheet = sheets w BufferSheet)
           \<and> (\<forall>err n2 n3. fst s1 = Inr () \<and> fst s2 = Inr n2 \<and> fst s3 = Inr n3
                  \<and> fst s4 = Inl err \<longrightarrow>
                  res = Inl err \<and> w' = snd s4
                  \<and> sheets w' BufferSheet = sheets w BufferSheet))
     \<and> (sheets w' BufferSheet \<noteq> sheets w BufferSheet \<or> res = Inr () \<longrightarrow>
            d_fileUrl item \<notin> set (fileUrls (sheets w' FinalSheet))
          \<and> d_fileUrl item \<notin> set (fileUrls (sheets w' InflowSheet))
          \<and> d_fileUrl item \<notin> set (fileUrls (sheets w' OutflowSheet))
          \<and> (\<exists>fid. extractFileIdFromUrl (d_fileUrl item) = Some fid
                \<and> (fid \<in> set (folders w' InflowFolder) \<longrightarrow>
                      faulty e (ListFolder InflowFolder) \<or> faulty e (RemoveFile InflowFolder fid))
                \<and> (fid \<in> set (folders w' OutflowFolder) \<longrightarrow>
                      faulty e (ListFolder OutflowFolder) \<or> faulty e (RemoveFile OutflowFolder fid))))
     \<and> (res = Inr () \<and> 2 \<le> d_rowIndex item \<and> d_rowIndex item \<le> length (sheets w BufferSheet)
          \<and> getColumnIndex (hd (sheets w BufferSheet)) ''Status'' \<noteq> - 1
          \<and> getColumnIndex (hd (sheets w BufferSheet)) ''Reason'' \<noteq> - 1 \<longrightarrow>
            sheetCell (sheets w' BufferSheet) (d_rowIndex item) ''Status'' = CStr ''Deleted''
          \<and> sheetCell (sheets w' BufferSheet) (d_rowIndex item) ''Reason'' =
              CStr (''Deleted: '' @ cellText e (d_reason item) @ '' ('' @ now e @ '')''))"
    (is "?steps \<and> ?written")
proof
  let ?url = "d_fileUrl item"
  let ?s1 = "removeFileFromDriveFolders e ?url w"
  let ?s2 = "removeFromSheet e FinalSheet ?url ''File URL'' (snd ?s1)"
  let ?s3 = "removeFromSheet e InflowSheet ?url ''File URL'' (snd ?s2)"
  let ?s4 = "removeFromSheet e OutflowSheet ?url ''File URL'' (snd ?s3)"
  note sh1 = removeFileFromDriveFolders_snd_sheets [of e ?url w]
  have c1: "extractFileIdFromUrl ?url = None \<longrightarrow> res = Inl INVALID_INPUT \<and> w' = w"
  proof
    assume "extractFileIdFromUrl ?url = None"
    from processFileDeletion_lookup_fails(1) [OF this, of e w] run
    show "res = Inl INVALID_INPUT \<and> w' = w" by simp
  qed
  have c2: "\<forall>fid. extractFileIdFromUrl ?url = Some fid
      \<and> (faulty e (GetFileById fid) \<or> map_of (driveFiles w) fid = None) \<longrightarrow>
      res = Inl (ServiceError (GetFileById fid)) \<and> w' = w"
  proof (intro allI impI)
    fix fid
    assume "extractFileIdFromUrl ?url = Some fid
      \<and> (faulty e (GetFileById fid) \<or> map_of (driveFiles w) fid = None)"
    then have "extractFileIdFromUrl ?url = Some fid"
      and "faulty e (GetFileById fid) \<or> map_of (driveFiles w) fid = None" by simp_all
    from processFileDeletion_lookup_fails(2) [OF this] run
    show "res = Inl (ServiceError (GetFileById fid)) \<and> w' = w" by simp
  qed
  have c3: "\<forall>err. fst ?s1 = Inl err \<longrightarrow> res = Inl err \<and> w' = snd ?s1 \<and> sheets w' = sheets w"
  proof (intro allI impI)
    fix err
    assume "fst ?s1 = Inl err"
    from processFileDeletion_raises(1) [OF this] run sh1
    show "res = Inl err \<and> w' = snd ?s1 \<and> sheets w' = sheets w" by simp
  qed
  have c4: "\<forall>err. fst ?s1 = Inr () \<and> fst ?s2 = Inl err \<longrightarrow>
      res = Inl err \<and> w' = snd ?s2
      \<and> sheets w' InflowSheet = sheets w InflowSheet
      \<and> sheets w' OutflowSheet = sheets w OutflowSheet
      \<and> sheets w' BufferSheet = sheets w BufferSheet"
  proof (intro allI impI)
    fix err
    assume "fst ?s1 = Inr () \<and> fst ?s2 = Inl err"
    then have "fst ?s1 = Inr ()" "fst ?s2 = Inl err" by simp_all
    from processFileDeletion_raises(2) [OF this] run
    have "res = Inl err" "w' = snd ?s2" by simp_all
    then show "res = Inl err \<and> w' = snd ?s2
      \<and> sheets w' InflowSheet = sheets w InflowSheet
      \<and> sheets w' OutflowSheet = sheets w OutflowSheet
      \<and> sheets w' BufferSheet = sheets w BufferSheet"
      using sh1 by (simp add: removeFromSheet_other)
  qed
  have c5: "\<forall>err n2. fst ?s1 = Inr () \<and> fst ?s2 = Inr n2 \<and> fst ?s3 = Inl err \<longrightarrow>
      res = Inl err \<and> w' = snd ?s3
      \<and> sheets w' OutflowSheet = sheets w OutflowSheet
      \<and> sheets w' BufferSheet = sheets w BufferSheet"
  proof (intro allI impI)
    fix err n2
    assume "fst ?s1 = Inr () \<and> fst ?s2 = Inr n2 \<and> fst ?s3 = Inl err"
    then have "fst ?s1 = Inr ()" "fst ?s2 = Inr n2" "fst ?s3 = Inl err" by simp_all
    from processFileDeletion_raises(3) [OF this] run
    have "res = Inl err" "w' = snd ?s3" by simp_all
    then show "res = Inl err \<and> w' = snd ?s3
      \<and> sheets w' OutflowSheet = sheets w OutflowSheet
      \<and> sheets w' BufferSheet = sheets w BufferSheet"
      using sh1 by (simp add: removeFromSheet_other)
  qed
  have c6: "\<forall>err n2 n3. fst ?s1 = Inr () \<and> fst ?s2 = Inr n2 \<and> fst ?s3 = Inr n3
      \<and> fst ?s4 = Inl err \<longrightarrow>
      res = Inl err \<and> w' = snd ?s4 \<and> sheets w' BufferSheet = sheets w BufferSheet"
  proof (intro allI impI)
    fix err n2 n3
    assume "fst ?s1 = Inr () \<and> fst ?s2 = Inr n2 \<and> fst ?s3 = Inr n3 \<and> fst ?s4 = Inl err"
    then have "fst ?s1 = Inr ()" "fst ?s2 = Inr n2" "fst ?s3 = Inr n3" "fst ?s4 = Inl err"
      by simp_all
    from processFileDeletion_raises(4) [OF this] run
    have "res = Inl err" "w' = snd ?s4" by simp_all
    then show "res = Inl err \<and> w' = snd ?s4 \<and> sheets w' BufferSheet = sheets w BufferSheet"
      using sh1 by (simp add: removeFromSheet_other)
  qed
  show ?steps
    unfolding Let_def by (intro conjI) (rule c1 c2 c3 c4 c5 c6)+
  show ?written by (rule processFileDeletion_written [OF run])
qed

theorem deletion_writes_buffer_last_witness:
  "d_fileUrl pendingDeletion \<in> set (fileUrls (sheets deletionWorld InflowSheet))
   \<and> fst (processFileDeletion quietEnv pendingDeletion deletionWorld) = Inr ()
   \<and> d_fileUrl pendingDeletion \<notin> set (fileUrls (sheets (snd (processFileDeletion quietEnv
        pendingDeletion deletionWorld)) InflowSheet))
   \<and> sheetCell (sheets (snd (processFileDeletion quietEnv pendingDeletion deletionWorld))
        BufferSheet) 2 ''Reason'' = CStr ''Deleted: duplicate (2026-01-01T00:00:00.000Z)''
   \<and> processFileDeletion lostFileEnv pendingDeletion deletionWorld =
        (Inl (ServiceError (GetFileById ''fileA'')), deletionWorld)"
proof -
  let ?w' = "snd (processFileDeletion quietEnv pendingDeletion deletionWorld)"
  have q: "\<And>c. faulty quietEnv c \<Longrightarrow> (\<exists>f x. c = ListFolder f \<or> c = RemoveFile f x)"
    by (simp add: quietEnv_def)
  have before: "d_fileUrl pendingDeletion \<in> set (fileUrls (sheets deletionWorld InflowSheet))"
    by code_simp
  from pendingDeletion_facts(3,4) have ne: "sheets deletionWorld BufferSheet \<noteq> []" by auto
  have ok: "fst (processFileDeletion quietEnv pendingDeletion deletionWorld) = Inr ()"
    by (rule processFileDeletion_succeeds [OF q pendingDeletion_facts(1,2) ne])
  have two: "d_rowIndex pendingDeletion = 2" by (simp add: pendingDeletion_def)
  have msg: "''Deleted: '' @ cellText quietEnv (d_reason pendingDeletion) @ '' ('' @ now quietEnv @ '')'' = ''Deleted: duplicate (2026-01-01T00:00:00.000Z)''"
    by (simp add: pendingDeletion_def quietEnv_def)
  note t = deletion_writes_buffer_last [OF prod.collapse [symmetric],
      where e = quietEnv and item = pendingDeletion and w = deletionWorld, THEN conjunct2]
  from t [THEN conjunct1, rule_format, OF disjI2 [OF ok]]
  have gone: "d_fileUrl pendingDeletion \<notin> set (fileUrls (sheets ?w' InflowSheet))"
    by (rule conjunct2 [THEN conjunct1])
  from t [THEN conjunct2, rule_format] ok pendingDeletion_facts(3-6)
  have "sheetCell (sheets ?w' BufferSheet) (d_rowIndex pendingDeletion) ''Reason'' =
      CStr (''Deleted: '' @ cellText quietEnv (d_reason pendingDeletion) @ '' ('' @ now quietEnv @ '')'')" by simp
  then have marked: "sheetCell (sheets ?w' BufferSheet) 2 ''Reason'' =
      CStr ''Deleted: duplicate (2026-01-01T00:00:00.000Z)''"
    unfolding two msg .
  have lostFile: "faulty lostFileEnv (GetFileById ''fileA'')
      \<or> map_of (driveFiles deletionWorld) ''fileA'' = None"
    by (simp add: lostFileEnv_def)
  note l = deletion_writes_buffer_last [OF prod.collapse [symmetric],
      where e = lostFileEnv and item = pendingDeletion and w = deletionWorld,
      THEN conjunct1, unfolded Let_def,
      THEN conjunct2, THEN conjunct1, rule_format, OF conjI [OF pendingDeletion_facts(1) lostFile]]
  then have lost: "processFileDeletion lostFileEnv pendingDeletion deletionWorld =
        (Inl (ServiceError (GetFileById ''fileA'')), deletionWorld)"
    by (simp add: prod_eq_iff)
  show ?thesis by (intro conjI) (rule before ok gone marked lost)+
qed

end
